theory Spec2Isabelle
  imports Complex_Main "HOL-Library.Multiset" "HOL-Library.Log_Nat"
begin

section \<open>Text formatting used by the generator\<close>

text \<open>
  The script \<^verbatim>\<open>scripts/generate_mock_data.py\<close> builds identifiers, amounts and dates
  with Python format specifications. Strings are modelled as \<^typ>\<open>string\<close>; the
  identifiers and bank names of the script are ASCII.
\<close>

definition digit_char :: "nat \<Rightarrow> char" where
  "digit_char d = char_of (48 + d)"

fun str_nat :: "nat \<Rightarrow> string" where
  "str_nat n = (if n < 10 then [digit_char n] else str_nat (n div 10) @ [digit_char (n mod 10)])"

declare str_nat.simps [simp del]

definition zfill :: "nat \<Rightarrow> string \<Rightarrow> string" where
  "zfill w s = replicate (w - length s) CHR ''0'' @ s"

text \<open>
  \<^verbatim>\<open>f"{i:0Wd}"\<close>: the decimal digits of \<open>i\<close>, padded with zeros on the left to a minimum
  width of \<open>W\<close> characters; a minus sign comes first and counts towards the width.
\<close>

definition format_0d :: "nat \<Rightarrow> int \<Rightarrow> string" where
  "format_0d w i =
     (if i < 0 then CHR ''-'' # zfill (w - 1) (str_nat (nat (- i)))
      else zfill w (str_nat (nat i)))"

text \<open>\<^verbatim>\<open>str.upper()\<close> on ASCII text: the letters a..z become A..Z, every other byte stays.\<close>

definition upper_char :: "char \<Rightarrow> char" where
  "upper_char c =
     (let n = (of_char c :: nat) in if 97 \<le> n \<and> n \<le> 122 then char_of (n - 32) else c)"

definition upper :: "string \<Rightarrow> string" where
  "upper s = map upper_char s"

text \<open>
  \<^verbatim>\<open>def generate_transaction_id(index): return f"TRX{index:08d}"\<close>
\<close>

definition generate_transaction_id :: "int \<Rightarrow> string" where
  "generate_transaction_id index = ''TRX'' @ format_0d 8 index"

section \<open>Amounts\<close>

text \<open>
  Amounts are Python floats (binary doubles) in the script, and a float is modelled by a
  rational number. An amount that \<^verbatim>\<open>round(x, 2)\<close> returned is modelled by the decimal
  number it stands for; the double the script holds is the one nearest to it, and
  \<^verbatim>\<open>.2f\<close> writes that decimal. Where the script computes with floats
  (\<^verbatim>\<open>random.uniform\<close> and the sum of an amount and an offset) every result is rounded
  to the nearest double by \<open>fl\<close>, so that the model computes the values of the script.
  \<^verbatim>\<open>round(x, 2)\<close> and the format specification \<^verbatim>\<open>.2f\<close> both round the exact value of
  the float to the nearest hundredth, ties going to the even neighbour.
\<close>

definition round_half_even :: "rat \<Rightarrow> int" where
  "round_half_even r =
     (let f = \<lfloor>r\<rfloor>; d = r - of_int f
      in if d < 1 / 2 then f else if 1 / 2 < d then f + 1 else if even f then f else f + 1)"

definition round2 :: "rat \<Rightarrow> rat" where
  "round2 x = of_int (round_half_even (x * 100)) / 100"

text \<open>
  The nearest double: \<open>binade x\<close> is \<open>\<lfloor>log\<^sub>2 \<bar>x\<bar>\<rfloor>\<close> for \<open>x \<noteq> 0\<close>, and \<open>fl x\<close> rounds \<open>x\<close>
  to 53 significant bits, ties going to the even neighbour. This is the result of a
  float operation whose exact result is \<open>x\<close>, and the float of a decimal literal
  \<open>x\<close>. Overflow and subnormal numbers are far from the magnitudes the script
  reaches and are left out.
\<close>

definition binade :: "rat \<Rightarrow> int" where
  "binade x = (if 1 \<le> \<bar>x\<bar> then bitlen \<lfloor>\<bar>x\<bar>\<rfloor> - 1 else - bitlen (\<lceil>1 / \<bar>x\<bar>\<rceil> - 1))"

definition fl :: "rat \<Rightarrow> rat" where
  "fl x =
     (if x = 0 then 0
      else (let e = binade x - 52 in of_int (round_half_even (x / 2 powi e)) * 2 powi e))"

text \<open>
  \<^verbatim>\<open>f"{x:.2f}"\<close>: an optional minus sign, the integer part, a point and exactly two
  fractional digits. The sign is that of \<open>x\<close> itself, so a small negative number is
  written \<^verbatim>\<open>-0.00\<close>.
\<close>

definition format_2f :: "rat \<Rightarrow> string" where
  "format_2f x =
     (let c = nat (round_half_even (\<bar>x\<bar> * 100))
      in (if x < 0 then ''-'' else []) @ str_nat (c div 100) @ ''.'' @ zfill 2 (str_nat (c mod 100)))"

text \<open>
  \<^verbatim>\<open>f"{-x:.2f}"\<close> for a float \<open>x\<close>: the negation of a zero is the negative zero, which is
  written \<^verbatim>\<open>-0.00\<close>.
\<close>

definition format_2f_negated :: "rat \<Rightarrow> string" where
  "format_2f_negated x = (if x = 0 then ''-0.00'' else format_2f (- x))"

section \<open>The random source\<close>

text \<open>
  The script draws from Python's ambient \<^verbatim>\<open>random\<close> module. The generator is modelled
  as an arbitrary infinite sequence of raw outcomes with a read position; every primitive
  consumes one outcome. \<^verbatim>\<open>random()\<close> is a multiple of \<open>1 / 2 ^ 53\<close> in \<open>[0, 1)\<close>,
  \<^verbatim>\<open>uniform(a, b)\<close> is \<^verbatim>\<open>a + (b - a) * random()\<close> in float arithmetic, and \<^verbatim>\<open>choice\<close>,
  \<^verbatim>\<open>randint\<close> and \<^verbatim>\<open>shuffle\<close> go through \<^verbatim>\<open>_randbelow(n)\<close>, which lies in \<open>[0, n)\<close>.
\<close>

record rng =
  raw :: "nat \<Rightarrow> nat"
  pos :: nat

datatype py_error = DatabaseError | ValueError | ZeroDivisionError

definition next_raw :: "rng \<Rightarrow> nat \<times> rng" where
  "next_raw g = (raw g (pos g), g\<lparr>pos := pos g + 1\<rparr>)"

definition random :: "rng \<Rightarrow> rat \<times> rng" where
  "random g = (let (r, g') = next_raw g in (of_nat (r mod 2 ^ 53) / 2 ^ 53, g'))"

definition uniform :: "rat \<Rightarrow> rat \<Rightarrow> rng \<Rightarrow> rat \<times> rng" where
  "uniform a b g = (let (u, g') = random g in (fl (fl a + fl (fl (b - a) * u)), g'))"

definition randbelow :: "nat \<Rightarrow> rng \<Rightarrow> nat \<times> rng" where
  "randbelow n g = (let (r, g') = next_raw g in (r mod n, g'))"

text \<open>\<^verbatim>\<open>random.choice(seq)\<close>; the script only passes non-empty literal lists.\<close>

definition choice :: "'a list \<Rightarrow> rng \<Rightarrow> 'a \<times> rng" where
  "choice xs g = (let (i, g') = randbelow (length xs) g in (xs ! i, g'))"

text \<open>\<^verbatim>\<open>random.randint(a, b)\<close> raises \<^verbatim>\<open>ValueError\<close> on an empty range.\<close>

definition randint :: "int \<Rightarrow> int \<Rightarrow> rng \<Rightarrow> py_error + (int \<times> rng)" where
  "randint a b g =
     (if b < a then Inl ValueError
      else (let (i, g') = randbelow (nat (b - a + 1)) g in Inr (a + int i, g')))"

text \<open>
  \<^verbatim>\<open>random.shuffle(x)\<close>:
  \<^verbatim>\<open>for i in reversed(range(1, len(x))): j = randbelow(i + 1); x[i], x[j] = x[j], x[i]\<close>
\<close>

fun shuffle_loop :: "nat \<Rightarrow> 'a list \<Rightarrow> rng \<Rightarrow> 'a list \<times> rng" where
  "shuffle_loop 0 xs g = (xs, g)"
| "shuffle_loop (Suc i) xs g =
     (let (j, g') = randbelow (Suc i + 1) g
      in shuffle_loop i (xs[Suc i := xs ! j, j := xs ! Suc i]) g')"

definition shuffle :: "'a list \<Rightarrow> rng \<Rightarrow> 'a list \<times> rng" where
  "shuffle xs g = shuffle_loop (length xs - 1) xs g"

section \<open>Dates and times\<close>

text \<open>
  A \<^verbatim>\<open>datetime\<close> is a record of its calendar fields (the microsecond is always zero
  here). Differences go through the proleptic Gregorian ordinal, as in Python's
  \<^verbatim>\<open>datetime\<close> module; adding a non-negative number of seconds steps the calendar day
  by day. The script only ever adds \<^verbatim>\<open>randint(0, n)\<close> seconds.
\<close>

record datetime =
  year :: int
  month :: int
  day :: int
  hour :: int
  minute :: int
  second :: int

definition mk_datetime :: "int \<Rightarrow> int \<Rightarrow> int \<Rightarrow> datetime" where
  "mk_datetime y m d = \<lparr>year = y, month = m, day = d, hour = 0, minute = 0, second = 0\<rparr>"

definition is_leap :: "int \<Rightarrow> bool" where
  "is_leap y = (if y mod 400 = 0 then True else if y mod 100 = 0 then False else y mod 4 = 0)"

definition days_in_month :: "int \<Rightarrow> int \<Rightarrow> int" where
  "days_in_month y m =
     (if m = 2 then (if is_leap y then 29 else 28)
      else if m = 4 \<or> m = 6 \<or> m = 9 \<or> m = 11 then 30 else 31)"

definition valid_datetime :: "datetime \<Rightarrow> bool" where
  "valid_datetime t =
     (1 \<le> year t \<and> year t \<le> 9999 \<and> 1 \<le> month t \<and> month t \<le> 12 \<and>
      1 \<le> day t \<and> day t \<le> days_in_month (year t) (month t) \<and>
      0 \<le> hour t \<and> hour t < 24 \<and> 0 \<le> minute t \<and> minute t < 60 \<and>
      0 \<le> second t \<and> second t < 60)"

definition days_before_year :: "int \<Rightarrow> int" where
  "days_before_year y = (y - 1) * 365 + (y - 1) div 4 - (y - 1) div 100 + (y - 1) div 400"

definition days_before_month :: "int \<Rightarrow> int \<Rightarrow> int" where
  "days_before_month y m = sum_list (map (days_in_month y) [1..m - 1])"

definition ymd2ord :: "datetime \<Rightarrow> int" where
  "ymd2ord t = days_before_year (year t) + days_before_month (year t) (month t) + day t"

definition seconds_of_day :: "datetime \<Rightarrow> int" where
  "seconds_of_day t = hour t * 3600 + minute t * 60 + second t"

text \<open>\<^verbatim>\<open>int((end_date - start_date).total_seconds())\<close>\<close>

definition total_seconds_between :: "datetime \<Rightarrow> datetime \<Rightarrow> int" where
  "total_seconds_between start_date end_date =
     (ymd2ord end_date - ymd2ord start_date) * 86400
       + (seconds_of_day end_date - seconds_of_day start_date)"

definition next_day :: "datetime \<Rightarrow> datetime" where
  "next_day t =
     (if day t < days_in_month (year t) (month t) then t\<lparr>day := day t + 1\<rparr>
      else if month t < 12 then t\<lparr>month := month t + 1, day := 1\<rparr>
      else t\<lparr>year := year t + 1, month := 1, day := 1\<rparr>)"

fun add_days :: "nat \<Rightarrow> datetime \<Rightarrow> datetime" where
  "add_days 0 t = t"
| "add_days (Suc n) t = add_days n (next_day t)"

text \<open>\<^verbatim>\<open>t + timedelta(seconds=k)\<close> for \<open>k \<ge> 0\<close>.\<close>

definition add_seconds :: "datetime \<Rightarrow> int \<Rightarrow> datetime" where
  "add_seconds t k =
     (let s = seconds_of_day t + k; r = s mod 86400
      in add_days (nat (s div 86400))
           (t\<lparr>hour := r div 3600, minute := (r mod 3600) div 60, second := r mod 60\<rparr>))"

text \<open>\<^verbatim>\<open>t.strftime("%Y-%m-%d")\<close>, with the year written on four digits.\<close>

definition strftime_ymd :: "datetime \<Rightarrow> string" where
  "strftime_ymd t =
     format_0d 4 (year t) @ ''-'' @ format_0d 2 (month t) @ ''-'' @ format_0d 2 (day t)"

section \<open>Configuration and data\<close>

text \<open>
  The module constants of the script. They are gathered in a record so that the
  functions can be studied for every configuration; \<open>script_config\<close> holds the values
  the script ships with.
\<close>

record config =
  OUTPUT_DIR :: string
  NUM_TRANSACTIONS :: int
  NUM_BANK_FILES :: int
  ROWS_PER_BANK :: int
  ERROR_RATE :: rat
  BANKS :: "string list"

definition script_config :: config where
  "script_config =
     \<lparr>OUTPUT_DIR = ''test/testdata'', NUM_TRANSACTIONS = 100, NUM_BANK_FILES = 1,
      ROWS_PER_BANK = 100, ERROR_RATE = 5 / 100, BANKS = [''bank_bca'']\<rparr>"

definition TYPES :: "string list" where
  "TYPES = [''DEBIT'', ''CREDIT'']"

text \<open>A system transaction is the tuple \<^verbatim>\<open>(trx_id, amount, tx_type, tx_time)\<close>.\<close>

type_synonym transaction = "string \<times> rat \<times> string \<times> datetime"

definition trx_id_of :: "transaction \<Rightarrow> string" where
  "trx_id_of t = fst t"

definition amount_of :: "transaction \<Rightarrow> rat" where
  "amount_of t = fst (snd t)"

definition tx_type_of :: "transaction \<Rightarrow> string" where
  "tx_type_of t = fst (snd (snd t))"

definition tx_time_of :: "transaction \<Rightarrow> datetime" where
  "tx_time_of t = snd (snd (snd t))"

text \<open>
  A value handed to \<^verbatim>\<open>csv.writer.writerow\<close>: a string, or a number that the writer
  converts itself.
\<close>

datatype cell = CStr string | CNum rat

text \<open>The three columns of a data row, in the order of the header.\<close>

definition ref_id_field :: "cell list \<Rightarrow> cell option" where
  "ref_id_field row = (case row of [a, b, c] \<Rightarrow> Some a | _ \<Rightarrow> None)"

definition amount_field :: "cell list \<Rightarrow> cell option" where
  "amount_field row = (case row of [a, b, c] \<Rightarrow> Some b | _ \<Rightarrow> None)"

definition date_field :: "cell list \<Rightarrow> cell option" where
  "date_field row = (case row of [a, b, c] \<Rightarrow> Some c | _ \<Rightarrow> None)"

section \<open>Generating the system transactions\<close>

text \<open>\<^verbatim>\<open>round(random.uniform(10.0, 10000.0), 2)\<close>\<close>

definition generate_random_amount :: "rng \<Rightarrow> rat \<times> rng" where
  "generate_random_amount g = (let (x, g') = uniform 10 10000 g in (round2 x, g'))"

definition generate_random_datetime ::
  "datetime \<Rightarrow> datetime \<Rightarrow> rng \<Rightarrow> py_error + (datetime \<times> rng)" where
  "generate_random_datetime start_date end_date g =
     (case randint 0 (total_seconds_between start_date end_date) g of
        Inl e \<Rightarrow> Inl e
      | Inr (random_seconds, g') \<Rightarrow> Inr (add_seconds start_date random_seconds, g'))"

text \<open>
  The loop \<^verbatim>\<open>for i in range(1, NUM_TRANSACTIONS + 1)\<close> of
  \<^verbatim>\<open>create_postgres_transactions\<close>, over the list of its indices.
\<close>

fun generate_transactions :: "int list \<Rightarrow> rng \<Rightarrow> py_error + (transaction list \<times> rng)" where
  "generate_transactions [] g = Inr ([], g)"
| "generate_transactions (i # is) g =
     (let trx_id = generate_transaction_id i;
          (amount, g1) = generate_random_amount g;
          (tx_type, g2) = choice TYPES g1
      in case generate_random_datetime (mk_datetime 2024 1 1) (mk_datetime 2024 12 31) g2 of
           Inl e \<Rightarrow> Inl e
         | Inr (tx_time, g3) \<Rightarrow>
             (case generate_transactions is g3 of
                Inl e \<Rightarrow> Inl e
              | Inr (rest, g4) \<Rightarrow> Inr ((trx_id, amount, tx_type, tx_time) # rest, g4)))"

section \<open>The two sinks\<close>

text \<open>
  The world the script acts on: the \<^verbatim>\<open>transactions\<close> table, keyed by \<^verbatim>\<open>trx_id\<close>, and
  the files written so far, each a list of rows. A database operation either succeeds or
  raises \<^verbatim>\<open>psycopg2.Error\<close>; which one raises, if any, is an input (\<open>fault\<close>). Console
  output and the creation of the output directory are left out, and opening and writing
  the files is taken to succeed.
\<close>

datatype db_op = OpConnect | OpDelete | OpInsert | OpCount

record world =
  table :: "string \<rightharpoonup> rat \<times> string \<times> datetime"
  files :: "string \<rightharpoonup> cell list list"

text \<open>\<^verbatim>\<open>DELETE FROM transactions WHERE trx_id LIKE 'TRX%'\<close>\<close>

definition delete_trx :: "(string \<rightharpoonup> 'v) \<Rightarrow> (string \<rightharpoonup> 'v)" where
  "delete_trx t = (\<lambda>k. if take 3 k = ''TRX'' then None else t k)"

text \<open>\<^verbatim>\<open>INSERT ... ON CONFLICT (trx_id) DO NOTHING\<close>, row after row.\<close>

fun bulk_insert :: "transaction list \<Rightarrow> (string \<rightharpoonup> rat \<times> string \<times> datetime) \<Rightarrow>
    (string \<rightharpoonup> rat \<times> string \<times> datetime)" where
  "bulk_insert [] t = t"
| "bulk_insert ((trx_id, row) # rest) t =
     bulk_insert rest (if t trx_id = None then t(trx_id \<mapsto> row) else t)"

definition create_postgres_transactions ::
  "config \<Rightarrow> db_op option \<Rightarrow> world \<Rightarrow> rng \<Rightarrow> (py_error + transaction list) \<times> world \<times> rng" where
  "create_postgres_transactions cfg fault w g =
     (if fault = Some OpConnect then (Inl DatabaseError, w, g)
      else if fault = Some OpDelete then (Inl DatabaseError, w, g)
      else
        (let w1 = w\<lparr>table := delete_trx (table w)\<rparr>
         in case generate_transactions [1..NUM_TRANSACTIONS cfg] g of
              Inl e \<Rightarrow> (Inl e, w1, g)
            | Inr (transactions, g1) \<Rightarrow>
                if fault = Some OpInsert then (Inl DatabaseError, w1, g1)
                else
                  (let w2 = w1\<lparr>table := bulk_insert transactions (table w1)\<rparr>
                   in if fault = Some OpCount then (Inl DatabaseError, w2, g1)
                      else (Inr transactions, w2, g1))))"

section \<open>Writing the bank files\<close>

definition error_types :: "string list" where
  "error_types =
     [''wrong_format_amount'', ''wrong_format_date'', ''missing_field'', ''amount_discrepancy'']"

text \<open>
  The body of the loop over \<^verbatim>\<open>bank_transactions\<close>: the rows it hands to the writer
  (one, in every reachable branch) and the random source afterwards. The transaction
  time is a \<^verbatim>\<open>datetime\<close>, as \<^verbatim>\<open>create_postgres_transactions\<close> returns it; the branch
  for a time given as text is not reached from \<^verbatim>\<open>main\<close> and is left out.

  In the \<^verbatim>\<open>amount_discrepancy\<close> branch the sum is a float addition of the double that
  holds the amount and the offset, and \<^verbatim>\<open>bank_amount\<close>, the sum or its negation, is
  written by \<^verbatim>\<open>.2f\<close>. In the faithful branch the amount is never zero (the generated
  amounts are at least 10), so its negation is an ordinary negative number.
\<close>

definition process_transaction :: "rat \<Rightarrow> transaction \<Rightarrow> rng \<Rightarrow> cell list list \<times> rng" where
  "process_transaction error_rate trx g =
     (case trx of (trx_id, amount, tx_type, tx_time) \<Rightarrow>
        (let date_str = strftime_ymd tx_time;
             (u, g1) = random g;
             should_error = (u < error_rate)
         in if should_error then
              (let (error_type, g2) = choice error_types g1
               in if error_type = ''wrong_format_amount'' then
                    ([[CStr trx_id, CStr ''invalid_amount'', CStr date_str]], g2)
                  else if error_type = ''wrong_format_date'' then
                    ([[CStr trx_id, CNum amount, CStr ''2024-13-45'']], g2)
                  else if error_type = ''missing_field'' then
                    ([[CStr trx_id, CStr [], CStr date_str]], g2)
                  else if error_type = ''amount_discrepancy'' then
                    (let (offset, g3) = uniform (- 100) 100 g2;
                         discrepancy_amount = fl (fl amount + offset);
                         amount_text = (if tx_type = ''DEBIT''
                                        then format_2f_negated discrepancy_amount
                                        else format_2f discrepancy_amount)
                     in ([[CStr trx_id, CStr amount_text, CStr date_str]], g3))
                  else ([], g2))
            else
              (let bank_amount = (if tx_type = ''DEBIT'' then - amount else amount)
               in ([[CStr trx_id, CStr (format_2f bank_amount), CStr date_str]], g1))))"

text \<open>The two local variables that decide the branch, as functions of the random source.\<close>

definition should_error :: "rat \<Rightarrow> rng \<Rightarrow> bool" where
  "should_error error_rate g = (fst (random g) < error_rate)"

definition error_type :: "rng \<Rightarrow> string" where
  "error_type g = fst (choice error_types (snd (random g)))"

text \<open>
  The loop over \<^verbatim>\<open>bank_transactions\<close>, with its counter \<^verbatim>\<open>rows_written\<close> and the
  \<^verbatim>\<open>break\<close> once \<^verbatim>\<open>ROWS_PER_BANK\<close> rows are out.
\<close>

fun process_transactions ::
  "int \<Rightarrow> rat \<Rightarrow> transaction list \<Rightarrow> int \<Rightarrow> rng \<Rightarrow> cell list list \<times> int \<times> rng" where
  "process_transactions rows_per_bank error_rate [] rows_written g = ([], rows_written, g)"
| "process_transactions rows_per_bank error_rate (trx # rest) rows_written g =
     (if rows_written \<ge> rows_per_bank then ([], rows_written, g)
      else
        (let (rows, g1) = process_transaction error_rate trx g;
             (later, n, g2) = process_transactions rows_per_bank error_rate rest (rows_written + 1) g1
         in (rows @ later, n, g2)))"

text \<open>\<^verbatim>\<open>int(x)\<close> on a number: truncation towards zero.\<close>

definition py_int :: "rat \<Rightarrow> int" where
  "py_int x = (if x < 0 then \<lceil>x\<rceil> else \<lfloor>x\<rfloor>)"

definition num_unmatched :: "int \<Rightarrow> int" where
  "num_unmatched rows_per_bank = py_int (of_int rows_per_bank * (5 / 100))"

definition fake_trx_id :: "string \<Rightarrow> int \<Rightarrow> string" where
  "fake_trx_id bank_name i = ''BANK_'' @ upper bank_name @ ''_'' @ format_0d 6 i"

text \<open>The loop \<^verbatim>\<open>for i in range(num_unmatched)\<close>, over the list of its indices.\<close>

fun unmatched_rows :: "string \<Rightarrow> int list \<Rightarrow> rng \<Rightarrow> py_error + (cell list list \<times> rng)" where
  "unmatched_rows bank_name [] g = Inr ([], g)"
| "unmatched_rows bank_name (i # is) g =
     (let (fake_amount, g1) = generate_random_amount g
      in case generate_random_datetime (mk_datetime 2024 1 1) (mk_datetime 2024 12 31) g1 of
           Inl e \<Rightarrow> Inl e
         | Inr (fake_time, g2) \<Rightarrow>
             (case unmatched_rows bank_name is g2 of
                Inl e \<Rightarrow> Inl e
              | Inr (later, g3) \<Rightarrow>
                  Inr ([CStr (fake_trx_id bank_name i), CStr (format_2f fake_amount),
                        CStr (strftime_ymd fake_time)] # later, g3)))"

text \<open>A Python slice \<^verbatim>\<open>xs[start:stop]\<close>: negative indices count from the end, and both are clipped.\<close>

definition py_slice :: "'a list \<Rightarrow> int \<Rightarrow> int \<Rightarrow> 'a list" where
  "py_slice xs start stop =
     (let n = int (length xs);
          s = (if start < 0 then max (start + n) 0 else min start n);
          e = (if stop < 0 then max (stop + n) 0 else min stop n)
      in take (nat (e - s)) (drop (nat s) xs))"

text \<open>
  \<^verbatim>\<open>start_idx = bank_index * (len(available_transactions) // NUM_BANK_FILES)\<close>,
  \<^verbatim>\<open>end_idx = start_idx + ROWS_PER_BANK\<close>,
  \<^verbatim>\<open>bank_transactions = available_transactions[start_idx:end_idx]\<close>; the division is
  guarded by the caller.
\<close>

definition bank_transactions :: "config \<Rightarrow> transaction list \<Rightarrow> int \<Rightarrow> transaction list" where
  "bank_transactions cfg available_transactions bank_index =
     (let start_idx = bank_index * (int (length available_transactions) div NUM_BANK_FILES cfg);
          end_idx = start_idx + ROWS_PER_BANK cfg
      in py_slice available_transactions start_idx end_idx)"

definition header :: "cell list" where
  "header = [CStr ''trx_ref_id'', CStr ''amount'', CStr ''date'']"

definition csv_path :: "config \<Rightarrow> string \<Rightarrow> string" where
  "csv_path cfg bank_name = OUTPUT_DIR cfg @ ''/'' @ bank_name @ ''.csv''"

text \<open>
  The loop \<^verbatim>\<open>for bank_index, bank_name in enumerate(BANKS)\<close>. An exception leaves the
  file with the rows written before it.
\<close>

fun write_banks ::
  "config \<Rightarrow> transaction list \<Rightarrow> (int \<times> string) list \<Rightarrow> world \<Rightarrow> rng \<Rightarrow>
     py_error option \<times> world \<times> rng" where
  "write_banks cfg available [] w g = (None, w, g)"
| "write_banks cfg available ((bank_index, bank_name) # rest) w g =
     (let csv_file = csv_path cfg bank_name
      in if NUM_BANK_FILES cfg = 0 then
           (Some ZeroDivisionError, w\<lparr>files := (files w)(csv_file \<mapsto> [header])\<rparr>, g)
         else
           (let (rows, n, g1) =
                  process_transactions (ROWS_PER_BANK cfg) (ERROR_RATE cfg)
                    (bank_transactions cfg available bank_index) 0 g
            in case unmatched_rows bank_name [0..num_unmatched (ROWS_PER_BANK cfg) - 1] g1 of
                 Inl e \<Rightarrow> (Some e, w\<lparr>files := (files w)(csv_file \<mapsto> header # rows)\<rparr>, g1)
               | Inr (fake_rows, g2) \<Rightarrow>
                   write_banks cfg available rest
                     (w\<lparr>files := (files w)(csv_file \<mapsto> header # rows @ fake_rows)\<rparr>) g2))"

definition enumerate_from0 :: "'a list \<Rightarrow> (int \<times> 'a) list" where
  "enumerate_from0 xs = zip (map int [0..<length xs]) xs"

definition create_bank_csv_files ::
  "config \<Rightarrow> transaction list \<Rightarrow> world \<Rightarrow> rng \<Rightarrow> py_error option \<times> world \<times> rng" where
  "create_bank_csv_files cfg system_transactions w g =
     (let (available_transactions, g1) = shuffle system_transactions g
      in write_banks cfg available_transactions (enumerate_from0 (BANKS cfg)) w g1)"

section \<open>The entry point\<close>

text \<open>
  \<^verbatim>\<open>main\<close>: both steps run inside one \<^verbatim>\<open>try\<close>; any exception ends the process with
  \<^verbatim>\<open>exit(1)\<close>, and a run without exception ends with status 0.
\<close>

definition main :: "config \<Rightarrow> db_op option \<Rightarrow> world \<Rightarrow> rng \<Rightarrow> int \<times> world \<times> rng" where
  "main cfg fault w g =
     (case create_postgres_transactions cfg fault w g of
        (Inl e, w1, g1) \<Rightarrow> (1, w1, g1)
      | (Inr transactions, w1, g1) \<Rightarrow>
          (case create_bank_csv_files cfg transactions w1 g1 of
             (Some e, w2, g2) \<Rightarrow> (1, w2, g2)
           | (None, w2, g2) \<Rightarrow> (0, w2, g2)))"

section \<open>Reading the written text back\<close>

text \<open>
  What a consumer of the files sees: whether a text is a number with two fractional
  digits and which number it is, and whether a text has the shape of a date and names a
  day of the calendar. These follow the wording of the specification; the script
  itself never reads its output.
\<close>

definition is_digit :: "char \<Rightarrow> bool" where
  "is_digit c = (48 \<le> (of_char c :: nat) \<and> (of_char c :: nat) \<le> 57)"

definition digits_value :: "string \<Rightarrow> nat" where
  "digits_value s = foldl (\<lambda>a c. 10 * a + (of_char c - 48)) 0 s"

definition is_digits :: "string \<Rightarrow> bool" where
  "is_digits s = (s \<noteq> [] \<and> list_all is_digit s)"

text \<open>An optional minus sign, at least one digit, a point, exactly two digits.\<close>

definition two_decimal_text :: "string \<Rightarrow> bool" where
  "two_decimal_text s =
     (let body = (case s of [] \<Rightarrow> [] | c # cs \<Rightarrow> if c = CHR ''-'' then cs else s);
          n = length body
      in 4 \<le> n \<and> is_digits (take (n - 3) body) \<and> body ! (n - 3) = CHR ''.'' \<and>
         is_digits (drop (n - 2) body))"

definition decimal_value :: "string \<Rightarrow> rat option" where
  "decimal_value s =
     (if two_decimal_text s then
        (let negative = (take 1 s = ''-'');
             body = (if negative then drop 1 s else s);
             n = length body;
             v = of_nat (digits_value (take (n - 3) body))
                   + of_nat (digits_value (drop (n - 2) body)) / 100
         in Some (if negative then - v else v))
      else None)"

text \<open>Four digits, a hyphen, two digits, a hyphen, two digits.\<close>

definition date_like :: "string \<Rightarrow> bool" where
  "date_like s =
     (length s = 10 \<and> is_digits (take 4 s) \<and> s ! 4 = CHR ''-'' \<and>
      is_digits (take 2 (drop 5 s)) \<and> s ! 7 = CHR ''-'' \<and> is_digits (drop 8 s))"

definition date_year :: "string \<Rightarrow> int" where
  "date_year s = int (digits_value (take 4 s))"

definition date_month :: "string \<Rightarrow> int" where
  "date_month s = int (digits_value (take 2 (drop 5 s)))"

definition date_day :: "string \<Rightarrow> int" where
  "date_day s = int (digits_value (drop 8 s))"

definition calendar_date :: "string \<Rightarrow> bool" where
  "calendar_date s =
     (date_like s \<and> 1 \<le> date_year s \<and> 1 \<le> date_month s \<and> date_month s \<le> 12 \<and>
      1 \<le> date_day s \<and> date_day s \<le> days_in_month (date_year s) (date_month s))"

text \<open>
  The faithful mirror of a transaction, in the words of the specification: its id, its
  amount with the sign convention applied (negated for \<^verbatim>\<open>DEBIT\<close>) written with two
  fractional digits, and its calendar date.
\<close>

definition mirror_row :: "transaction \<Rightarrow> cell list" where
  "mirror_row trx =
     [CStr (trx_id_of trx),
      CStr (format_2f (if tx_type_of trx = ''DEBIT'' then - amount_of trx else amount_of trx)),
      CStr (strftime_ymd (tx_time_of trx))]"

text \<open>
  The offset that the \<^verbatim>\<open>amount_discrepancy\<close> branch draws with
  \<^verbatim>\<open>random.uniform(-100, 100)\<close>, after the draws for \<^verbatim>\<open>should_error\<close> and
  \<^verbatim>\<open>error_type\<close>.
\<close>

definition discrepancy_offset :: "rng \<Rightarrow> rat" where
  "discrepancy_offset g = fst (uniform (- 100) 100 (snd (choice error_types (snd (random g)))))"

text \<open>The local variable \<^verbatim>\<open>discrepancy_amount\<close> of that branch: the float sum.\<close>

definition discrepancy_amount :: "rat \<Rightarrow> rng \<Rightarrow> rat" where
  "discrepancy_amount amount g = fl (fl amount + discrepancy_offset g)"

text \<open>Four system transactions with consecutive ids, used in the examples below.\<close>

definition four_transactions :: "transaction list" where
  "four_transactions =
     [(''TRX00000001'', 50, ''DEBIT'', mk_datetime 2024 3 5),
      (''TRX00000002'', 2469 / 2, ''CREDIT'', mk_datetime 2024 7 14),
      (''TRX00000003'', 10, ''DEBIT'', mk_datetime 2024 1 1),
      (''TRX00000004'', 10000, ''CREDIT'', mk_datetime 2024 12 30)]"

section \<open>Facts about the random source\<close>

lemma random_range: "0 \<le> fst (random g) \<and> fst (random g) < 1"
  by (simp add: random_def next_raw_def Let_def divide_less_eq)

lemma randbelow_less: "0 < n \<Longrightarrow> fst (randbelow n g) < n"
  by (simp add: randbelow_def next_raw_def Let_def)

lemma choice_error_types: "fst (choice error_types g) \<in> set error_types"
proof -
  have "fst (randbelow (length error_types) g) < length error_types"
    by (rule randbelow_less) (simp add: error_types_def)
  then show ?thesis
    by (simp add: choice_def case_prod_beta Let_def)
qed

lemma choice_error_types_cases:
  "fst (choice error_types g) = ''wrong_format_amount'' \<or>
   fst (choice error_types g) = ''wrong_format_date'' \<or>
   fst (choice error_types g) = ''missing_field'' \<or>
   fst (choice error_types g) = ''amount_discrepancy''"
  using choice_error_types [of g] by (simp add: error_types_def)

lemma total_seconds_2024:
  "total_seconds_between (mk_datetime 2024 1 1) (mk_datetime 2024 12 31) = 31536000"
  by code_simp

lemma generate_random_datetime_2024:
  "\<exists>t g'. generate_random_datetime (mk_datetime 2024 1 1) (mk_datetime 2024 12 31) g = Inr (t, g')"
  by (simp add: generate_random_datetime_def total_seconds_2024 randint_def Let_def case_prod_beta)

lemma generate_transactions_total:
  "\<exists>txs g'. generate_transactions is g = Inr (txs, g')"
proof (induction "is" arbitrary: g)
  case Nil
  show ?case by simp
next
  case (Cons i "is")
  obtain a g1 where a: "generate_random_amount g = (a, g1)" by (cases "generate_random_amount g")
  obtain ty g2 where ty: "choice TYPES g1 = (ty, g2)" by (cases "choice TYPES g1")
  obtain t g3 where t:
    "generate_random_datetime (mk_datetime 2024 1 1) (mk_datetime 2024 12 31) g2 = Inr (t, g3)"
    using generate_random_datetime_2024 by blast
  obtain txs g4 where r: "generate_transactions is g3 = Inr (txs, g4)"
    using Cons.IH by blast
  show ?case by (simp add: a ty t r)
qed

section \<open>The reference identifier of derived rows\<close>

lemma process_transaction_ref_id:
  "map ref_id_field (fst (process_transaction er trx g)) = [Some (CStr (trx_id_of trx))]"
  using choice_error_types_cases [of "snd (random g)"]
  by (auto simp: process_transaction_def trx_id_of_def ref_id_field_def Let_def case_prod_beta)

lemma process_transactions_ref_ids:
  "map ref_id_field (fst (process_transactions rpb er ts rw g)) =
     map (\<lambda>t. Some (CStr (trx_id_of t))) (take (nat (rpb - rw)) ts)"
proof (induction ts arbitrary: rw g)
  case Nil
  show ?case by simp
next
  case (Cons t ts)
  show ?case
  proof (cases "rw \<ge> rpb")
    case True
    then show ?thesis by simp
  next
    case False
    then have n: "nat (rpb - rw) = Suc (nat (rpb - (rw + 1)))" by simp
    show ?thesis
      using False Cons.IH [of "rw + 1" "snd (process_transaction er t g)"]
      by (simp add: n case_prod_beta Let_def process_transaction_ref_id)
  qed
qed

text \<open>
  Claim C4. Every row that the loop over \<^verbatim>\<open>bank_transactions\<close> derives from a system
  transaction carries that transaction's id, unchanged, in its first column: in every
  branch of the loop body (faithful, malformed amount, malformed date, missing field,
  amount discrepancy), for every error rate and every state of the random source; and
  the rows of the whole loop carry, in order, the ids of the transactions it processed.
\<close>

theorem ref_id_is_transaction_id:
  "map ref_id_field (fst (process_transaction er trx g)) = [Some (CStr (trx_id_of trx))] \<and>
   map ref_id_field (fst (process_transactions rpb er ts rw g)) =
     map (\<lambda>t. Some (CStr (trx_id_of t))) (take (nat (rpb - rw)) ts)"
  by (simp add: process_transaction_ref_id process_transactions_ref_ids)

section \<open>The malformed-date defect\<close>

text \<open>
  Claim C10. A row that takes the \<^verbatim>\<open>wrong_format_date\<close> branch has the constant text
  \<^verbatim>\<open>2024-13-45\<close> in its date column, whatever the transaction, the error rate and the
  random source.
\<close>

theorem malformed_date_is_sentinel:
  assumes "should_error er g" and "error_type g = ''wrong_format_date''"
  shows "map date_field (fst (process_transaction er trx g)) = [Some (CStr ''2024-13-45'')]"
  using assms
  by (simp add: process_transaction_def should_error_def error_type_def date_field_def
      Let_def case_prod_beta)

theorem malformed_date_is_sentinel_witness:
  "should_error (5 / 100) \<lparr>raw = (\<lambda>i. i), pos = 0\<rparr> \<and>
   error_type \<lparr>raw = (\<lambda>i. i), pos = 0\<rparr> = ''wrong_format_date'' \<and>
   map date_field (fst (process_transaction (5 / 100)
       (''TRX00000001'', 50, ''DEBIT'', mk_datetime 2024 3 5) \<lparr>raw = (\<lambda>i. i), pos = 0\<rparr>))
     = [Some (CStr ''2024-13-45'')]"
proof -
  have h1: "should_error (5 / 100) \<lparr>raw = (\<lambda>i. i), pos = 0\<rparr>"
    by (simp add: should_error_def random_def next_raw_def)
  have h2: "error_type \<lparr>raw = (\<lambda>i. i), pos = 0\<rparr> = ''wrong_format_date''"
    by (simp add: error_type_def random_def next_raw_def choice_def randbelow_def error_types_def)
  show ?thesis
    using malformed_date_is_sentinel [OF h1 h2] h1 h2 by simp
qed

section \<open>Failure of the persistence step\<close>

lemma create_postgres_transactions_files:
  "files (fst (snd (create_postgres_transactions cfg fault w g))) = files w"
  by (simp add: create_postgres_transactions_def Let_def split: sum.splits prod.splits)

lemma create_postgres_transactions_fault:
  "fst (create_postgres_transactions cfg (Some op) w g) = Inl DatabaseError"
proof -
  obtain txs g' where t: "generate_transactions [1..NUM_TRANSACTIONS cfg] g = Inr (txs, g')"
    using generate_transactions_total by blast
  show ?thesis
    by (cases op) (simp_all add: create_postgres_transactions_def Let_def t)
qed

lemma main_after_failure:
  assumes "fst (create_postgres_transactions cfg fault w g) = Inl e"
  shows "main cfg fault w g = (1, snd (create_postgres_transactions cfg fault w g))"
proof -
  obtain r w1 g1 where c: "create_postgres_transactions cfg fault w g = (r, w1, g1)"
    by (cases "create_postgres_transactions cfg fault w g")
  with assms have "r = Inl e" by simp
  then show ?thesis by (simp add: main_def c)
qed

text \<open>
  Claim C9. If \<^verbatim>\<open>create_postgres_transactions\<close> raises, \<^verbatim>\<open>main\<close> ends with exit
  status 1 and the set of files is what it was before the run: \<^verbatim>\<open>create_bank_csv_files\<close>
  is never entered. Every database operation that raises (connecting, deleting, inserting,
  counting) makes \<^verbatim>\<open>create_postgres_transactions\<close> raise.
\<close>

theorem persist_failure_aborts_run:
  "(fst (create_postgres_transactions cfg fault w g) = Inl e \<longrightarrow>
      fst (main cfg fault w g) = 1 \<and> files (fst (snd (main cfg fault w g))) = files w) \<and>
   (fault = Some op \<longrightarrow> fst (create_postgres_transactions cfg fault w g) = Inl DatabaseError)"
  using create_postgres_transactions_files [of cfg fault w g]
  by (auto simp: main_after_failure create_postgres_transactions_fault)

theorem persist_failure_aborts_run_witness:
  "fst (create_postgres_transactions script_config (Some OpInsert)
          \<lparr>table = Map.empty, files = Map.empty\<rparr> \<lparr>raw = (\<lambda>i. i), pos = 0\<rparr>) = Inl DatabaseError \<and>
   fst (main script_config (Some OpInsert)
          \<lparr>table = Map.empty, files = Map.empty\<rparr> \<lparr>raw = (\<lambda>i. i), pos = 0\<rparr>) = 1 \<and>
   files (fst (snd (main script_config (Some OpInsert)
          \<lparr>table = Map.empty, files = Map.empty\<rparr> \<lparr>raw = (\<lambda>i. i), pos = 0\<rparr>))) = Map.empty"
  using persist_failure_aborts_run [of script_config "Some OpInsert"
      "\<lparr>table = Map.empty, files = Map.empty\<rparr>" "\<lparr>raw = (\<lambda>i. i), pos = 0\<rparr>" DatabaseError OpInsert]
  by simp

section \<open>The unmatched rows\<close>

lemma ref_id_field_row [simp]: "ref_id_field [a, b, c] = Some a"
  by (simp add: ref_id_field_def)

lemma amount_field_row [simp]: "amount_field [a, b, c] = Some b"
  by (simp add: amount_field_def)

lemma date_field_row [simp]: "date_field [a, b, c] = Some c"
  by (simp add: date_field_def)

lemma unmatched_rows_total:
  "\<exists>rows g'. unmatched_rows b is g = Inr (rows, g') \<and>
     map ref_id_field rows = map (\<lambda>i. Some (CStr (fake_trx_id b i))) is"
proof (induction "is" arbitrary: g)
  case Nil
  show ?case by simp
next
  case (Cons i "is")
  obtain a g1 where a: "generate_random_amount g = (a, g1)" by (cases "generate_random_amount g")
  obtain t g2 where t:
    "generate_random_datetime (mk_datetime 2024 1 1) (mk_datetime 2024 12 31) g1 = Inr (t, g2)"
    using generate_random_datetime_2024 by blast
  obtain rows g3 where r: "unmatched_rows b is g2 = Inr (rows, g3)"
    "map ref_id_field rows = map (\<lambda>i. Some (CStr (fake_trx_id b i))) is"
    using Cons.IH by blast
  show ?case by (simp add: a t r)
qed






lemma fake_trx_id_bank_bca: "fake_trx_id ''bank_bca'' 0 = ''BANK_BANK_BCA_000000''"
  by code_simp

text \<open>
  Claim C6 says that an unmatched row's identifier is the upper-cased source name, an
  underscore and the six-digit sequence number. The script puts the literal \<^verbatim>\<open>BANK_\<close>
  in front: for the bank \<^verbatim>\<open>bank_bca\<close> the first unmatched row is
  \<^verbatim>\<open>BANK_BANK_BCA_000000\<close>, not \<^verbatim>\<open>BANK_BCA_000000\<close>.
\<close>

theorem unmatched_ref_id_has_bank_prefix:
  "(case unmatched_rows ''bank_bca'' [0] \<lparr>raw = (\<lambda>i. i), pos = 0\<rparr> of
      Inl e \<Rightarrow> [] | Inr (rows, g') \<Rightarrow> map ref_id_field rows)
     = [Some (CStr ''BANK_BANK_BCA_000000'')] \<and>
   ''BANK_BANK_BCA_000000'' \<noteq> upper ''bank_bca'' @ ''_'' @ format_0d 6 0"
proof -
  obtain rows g' where r:
    "unmatched_rows ''bank_bca'' [0] \<lparr>raw = (\<lambda>i. i), pos = 0\<rparr> = Inr (rows, g')"
    "map ref_id_field rows = map (\<lambda>i. Some (CStr (fake_trx_id ''bank_bca'' i))) [0]"
    using unmatched_rows_total by blast
  have "''BANK_BANK_BCA_000000'' \<noteq> upper ''bank_bca'' @ ''_'' @ format_0d 6 0"
    by code_simp
  then show ?thesis
    unfolding r(1) by (simp add: r(2) fake_trx_id_bank_bca)
qed

text \<open>
  Claim C6, as amended. The identifier of the unmatched row with loop index \<open>i\<close> (counted
  from 0) is the literal \<^verbatim>\<open>BANK_\<close>, the upper-cased bank name, an underscore, and \<open>i\<close>
  padded with zeros to six digits.
\<close>

theorem unmatched_ref_id_pattern:
  assumes "unmatched_rows b is g = Inr (rows, g')"
  shows "map ref_id_field rows =
           map (\<lambda>i. Some (CStr (''BANK_'' @ upper b @ ''_'' @ format_0d 6 i))) is"
  using unmatched_rows_total [of b "is" g] assms by (auto simp: fake_trx_id_def)

theorem unmatched_ref_id_pattern_witness:
  "\<exists>rows g'. unmatched_rows ''bank_bca'' [0, 1] \<lparr>raw = (\<lambda>i. i), pos = 0\<rparr> = Inr (rows, g') \<and>
     map ref_id_field rows =
       [Some (CStr ''BANK_BANK_BCA_000000''), Some (CStr ''BANK_BANK_BCA_000001'')]"
proof -
  obtain rows g' where r:
    "unmatched_rows ''bank_bca'' [0, 1] \<lparr>raw = (\<lambda>i. i), pos = 0\<rparr> = Inr (rows, g')"
    using unmatched_rows_total by blast
  have e0: "''BANK_'' @ upper ''bank_bca'' @ ''_'' @ format_0d 6 0 = ''BANK_BANK_BCA_000000''"
    by code_simp
  have e1: "''BANK_'' @ upper ''bank_bca'' @ ''_'' @ format_0d 6 1 = ''BANK_BANK_BCA_000001''"
    by code_simp
  show ?thesis
    using unmatched_ref_id_pattern [OF r] e0 e1 unfolding r by simp
qed

section \<open>Facts about formatted integers\<close>

lemma of_char_digit_char: "d < 10 \<Longrightarrow> (of_char (digit_char d) :: nat) = 48 + d"
  by (simp add: digit_char_def)

lemma is_digit_digit_char: "d < 10 \<Longrightarrow> is_digit (digit_char d)"
  by (simp add: is_digit_def of_char_digit_char)

lemma str_nat_digits: "list_all is_digit (str_nat n)"
  by (induction n rule: str_nat.induct) (subst str_nat.simps, simp add: is_digit_digit_char)

lemma str_nat_nonempty: "str_nat n \<noteq> []"
  by (subst str_nat.simps) simp

lemma digits_value_snoc:
  "digits_value (s @ [c]) = 10 * digits_value s + (of_char c - 48)"
  by (simp add: digits_value_def)

lemma digits_value_str_nat: "digits_value (str_nat n) = n"
proof (induction n rule: str_nat.induct)
  case (1 n)
  show ?case
  proof (cases "n < 10")
    case True
    then show ?thesis
      by (subst str_nat.simps) (simp add: digits_value_def of_char_digit_char)
  next
    case False
    then have "digits_value (str_nat (n div 10)) = n div 10" using 1 by simp
    with False show ?thesis
      by (subst str_nat.simps) (simp add: digits_value_snoc of_char_digit_char)
  qed
qed

lemma digits_value_zeros: "digits_value (replicate k CHR ''0'' @ s) = digits_value s"
proof -
  have "foldl (\<lambda>a c. 10 * a + (of_char c - 48)) 0 (replicate k CHR ''0'') = (0::nat)"
    by (induction k) simp_all
  then show ?thesis by (simp add: digits_value_def)
qed

lemma digits_value_zfill: "digits_value (zfill w (str_nat n)) = n"
  by (simp add: zfill_def digits_value_zeros digits_value_str_nat)

lemma length_str_nat: "0 < w \<Longrightarrow> n < 10 ^ w \<Longrightarrow> length (str_nat n) \<le> w"
proof (induction n arbitrary: w rule: str_nat.induct)
  case (1 n)
  show ?case
  proof (cases "n < 10")
    case True
    then show ?thesis using 1(2) by (subst str_nat.simps) simp
  next
    case False
    obtain v where v: "w = Suc v" using 1(2) by (cases w) auto
    have "0 < v"
    proof (rule ccontr)
      assume "\<not> 0 < v"
      then have "w = 1" using v by simp
      with 1(3) False show False by simp
    qed
    moreover have "n div 10 < 10 ^ v" using 1(3) v by (simp add: less_mult_imp_div_less mult.commute)
    ultimately have "length (str_nat (n div 10)) \<le> v" using 1(1) False by simp
    with False v show ?thesis by (subst str_nat.simps) simp
  qed
qed

lemma length_zfill: "length s \<le> w \<Longrightarrow> length (zfill w s) = w"
  by (simp add: zfill_def)

lemma zfill_digits: "list_all is_digit s \<Longrightarrow> list_all is_digit (zfill w s)"
  by (auto simp: zfill_def is_digit_def list_all_iff)

lemma format_0d_nonneg:
  assumes "0 \<le> i"
  shows "digits_value (format_0d w i) = nat i \<and> list_all is_digit (format_0d w i)"
  using assms by (simp add: format_0d_def digits_value_zfill zfill_digits str_nat_digits)

lemma format_0d_length:
  assumes "0 \<le> i" and "i < 10 ^ w" and "0 < w"
  shows "length (format_0d w i) = w"
proof -
  have "nat i < 10 ^ w" using assms(1,2)
    by (metis nat_less_iff of_nat_numeral of_nat_power)
  then show ?thesis
    using assms by (simp add: format_0d_def length_zfill length_str_nat)
qed

lemma generate_transaction_id_inj:
  assumes "0 \<le> i" and "0 \<le> j" and "generate_transaction_id i = generate_transaction_id j"
  shows "i = j"
proof -
  have "format_0d 8 i = format_0d 8 j" using assms(3) by (simp add: generate_transaction_id_def)
  then have "digits_value (format_0d 8 i) = digits_value (format_0d 8 j)" by simp
  then show ?thesis using assms(1,2) by (simp add: format_0d_nonneg)
qed

section \<open>Facts about rounding\<close>

lemma round_half_even_of_int: "round_half_even (of_int k) = k"
  by (simp add: round_half_even_def)

lemma round_half_even_bounds: "\<lfloor>r\<rfloor> \<le> round_half_even r \<and> round_half_even r \<le> \<lceil>r\<rceil>"
proof -
  have "r = of_int \<lfloor>r\<rfloor> \<or> \<lceil>r\<rceil> = \<lfloor>r\<rfloor> + 1"
    by (metis ceiling_altdef of_int_floor_cancel)
  then show ?thesis
    by (auto simp: round_half_even_def Let_def)
qed

lemma round_half_even_ge: "of_int k \<le> r \<Longrightarrow> k \<le> round_half_even r"
  using round_half_even_bounds [of r] by (meson le_floor_iff order_trans)

lemma round_half_even_le: "r \<le> of_int k \<Longrightarrow> round_half_even r \<le> k"
  using round_half_even_bounds [of r] by (meson ceiling_le_iff order_trans)

lemma round_half_even_minus: "round_half_even (- r) = - round_half_even r"
proof (cases "r = of_int \<lfloor>r\<rfloor>")
  case True
  then obtain k where "r = of_int k" by metis
  then show ?thesis
    by (metis of_int_minus round_half_even_of_int)
next
  case False
  then have f: "\<lfloor>- r\<rfloor> = - \<lfloor>r\<rfloor> - 1"
    by (metis ceiling_altdef ceiling_def diff_minus_eq_add minus_diff_eq minus_minus uminus_add_conv_diff)
  show ?thesis
    by (auto simp: round_half_even_def Let_def f)
qed

lemma round_half_even_abs: "round_half_even \<bar>r\<bar> = \<bar>round_half_even r\<bar>"
proof (cases "0 \<le> r")
  case True
  then have "0 \<le> round_half_even r" using round_half_even_ge [of 0 r] by simp
  with True show ?thesis by simp
next
  case False
  then have "round_half_even r \<le> 0" using round_half_even_le [of r 0] by simp
  with False show ?thesis by (simp add: abs_if round_half_even_minus)
qed

lemma round2_minus: "round2 (- x) = - round2 x"
  by (simp add: round2_def round_half_even_minus)

lemma round2_idem: "round2 (round2 x) = round2 x"
  by (simp add: round2_def round_half_even_of_int)

lemma round2_bounds:
  assumes "of_int a / 100 \<le> x" and "x \<le> of_int b / 100"
  shows "of_int a / 100 \<le> round2 x \<and> round2 x \<le> of_int b / 100"
proof -
  have "of_int a \<le> x * 100" using assms(1) by (simp add: divide_le_eq)
  then have l: "a \<le> round_half_even (x * 100)" by (rule round_half_even_ge)
  have "x * 100 \<le> of_int b" using assms(2) by (simp add: le_divide_eq)
  then have u: "round_half_even (x * 100) \<le> b" by (rule round_half_even_le)
  show ?thesis using l u by (simp add: round2_def divide_le_cancel)
qed

section \<open>Facts about the nearest double\<close>

lemma round_half_even_error: "\<bar>of_int (round_half_even r) - r\<bar> \<le> 1 / 2"
proof -
  have "of_int \<lfloor>r\<rfloor> \<le> r \<and> r < of_int \<lfloor>r\<rfloor> + 1" by linarith
  then show ?thesis
    by (auto simp: round_half_even_def Let_def abs_le_iff)
qed

lemma binade_lower:
  assumes "x \<noteq> 0"
  shows "2 powi binade x \<le> \<bar>x\<bar>"
proof (cases "1 \<le> \<bar>x\<bar>")
  case True
  define n where "n = \<lfloor>\<bar>x\<bar>\<rfloor>"
  have n: "0 < n" using True by (simp add: n_def)
  have b: "1 \<le> bitlen n" using n by (simp add: bitlen_alt_def)
  have "(2::int) ^ nat (bitlen n - 1) \<le> n" using bitlen_bounds [OF n] by simp
  then have "(of_int ((2::int) ^ nat (bitlen n - 1)) :: rat) \<le> of_int n" by (simp only: of_int_le_iff)
  also have "\<dots> \<le> \<bar>x\<bar>" by (simp add: n_def)
  finally have "(2::rat) ^ nat (bitlen n - 1) \<le> \<bar>x\<bar>" by simp
  moreover have "binade x = bitlen n - 1" using True by (simp add: binade_def n_def)
  ultimately show ?thesis using b by (simp add: power_int_nonneg_exp)
next
  case False
  define y where "y = 1 / \<bar>x\<bar>"
  define m where "m = \<lceil>y\<rceil> - 1"
  have x: "0 < \<bar>x\<bar>" "\<bar>x\<bar> < 1" using assms False by simp_all
  have y: "1 < y" using x by (simp add: y_def)
  then have "2 \<le> \<lceil>y\<rceil>" by (simp add: le_ceiling_iff)
  then have m: "0 < m" by (simp add: m_def)
  have "m < 2 ^ nat (bitlen m)" using bitlen_bounds [OF m] by simp
  then have "\<lceil>y\<rceil> \<le> 2 ^ nat (bitlen m)" by (simp add: m_def)
  then have c: "(of_int \<lceil>y\<rceil> :: rat) \<le> of_int (2 ^ nat (bitlen m))" by (simp only: of_int_le_iff)
  have "y \<le> of_int \<lceil>y\<rceil>" by (rule le_of_int_ceiling)
  also note c
  also have "(of_int (2 ^ nat (bitlen m)) :: rat) = 2 ^ nat (bitlen m)" by simp
  finally have "y \<le> 2 ^ nat (bitlen m)" .
  then have "1 / 2 ^ nat (bitlen m) \<le> \<bar>x\<bar>"
    using x by (simp add: y_def field_simps)
  moreover have "binade x = - bitlen m" using False by (simp add: binade_def m_def y_def)
  moreover have "0 \<le> bitlen m" by (rule bitlen_nonneg)
  ultimately show ?thesis
    by (simp add: power_int_minus power_int_nonneg_exp inverse_eq_divide)
qed

lemma fl_error: "\<bar>fl x - x\<bar> \<le> \<bar>x\<bar> / 2 ^ 53"
proof (cases "x = 0")
  case True
  then show ?thesis by (simp add: fl_def)
next
  case False
  define P :: rat where "P = 2 powi (binade x - 52)"
  have P: "0 < P" by (simp add: P_def)
  have f: "fl x = of_int (round_half_even (x / P)) * P"
    using False by (simp add: fl_def P_def Let_def)
  have "fl x - x = (of_int (round_half_even (x / P)) - x / P) * P"
    using P by (simp add: f field_simps)
  then have "\<bar>fl x - x\<bar> = \<bar>of_int (round_half_even (x / P)) - x / P\<bar> * P"
    using P by (simp add: abs_mult)
  also have "\<dots> \<le> 1 / 2 * P"
    using P round_half_even_error [of "x / P"] by (intro mult_right_mono) simp_all
  also have "P = 2 powi binade x / 2 ^ 52"
    by (simp add: P_def power_int_diff)
  also have "1 / 2 * (2 powi binade x / 2 ^ 52) \<le> 1 / 2 * (\<bar>x\<bar> / 2 ^ 52)"
    using binade_lower [OF False] by (intro mult_left_mono divide_right_mono) simp_all
  finally show ?thesis by simp
qed

lemma fl_scale:
  assumes "x \<noteq> 0" and "\<bar>x\<bar> < 2 ^ 53"
  shows "\<exists>k. fl x = of_int (round_half_even (x * 2 ^ k)) / 2 ^ k"
proof -
  define e where "e = binade x - 52"
  have "(2::rat) powi (e + 52) \<le> \<bar>x\<bar>" using binade_lower [OF assms(1)] by (simp add: e_def)
  also have "\<bar>x\<bar> < 2 powi 53" using assms(2) by simp
  finally have "e + 52 < 53" by (intro power_int_le_imp_less_exp [of "2::rat"]) simp_all
  then have e: "e \<le> 0" by simp
  have p: "(2::rat) powi e = 1 / 2 ^ nat (- e)"
    using e power_int_minus [of "2::rat" "- e"] by (simp add: power_int_nonneg_exp inverse_eq_divide)
  have "fl x = of_int (round_half_even (x * 2 ^ nat (- e))) / 2 ^ nat (- e)"
    using assms(1) by (simp add: fl_def Let_def e_def [symmetric] p)
  then show ?thesis by blast
qed

lemma fl_le_int:
  assumes "\<bar>x\<bar> < 2 ^ 53" and "x \<le> of_int c"
  shows "fl x \<le> of_int c"
proof (cases "x = 0")
  case True
  with assms(2) show ?thesis by (simp add: fl_def)
next
  case False
  obtain k where k: "fl x = of_int (round_half_even (x * 2 ^ k)) / 2 ^ k"
    using fl_scale [OF False assms(1)] by blast
  have "x * 2 ^ k \<le> of_int (c * 2 ^ k)" using assms(2) by simp
  then have "round_half_even (x * 2 ^ k) \<le> c * 2 ^ k" by (rule round_half_even_le)
  then have "(of_int (round_half_even (x * 2 ^ k)) :: rat) \<le> of_int (c * 2 ^ k)"
    by (simp only: of_int_le_iff)
  then show ?thesis by (simp add: k divide_le_eq)
qed

lemma fl_ge_int:
  assumes "\<bar>x\<bar> < 2 ^ 53" and "of_int c \<le> x"
  shows "of_int c \<le> fl x"
proof (cases "x = 0")
  case True
  with assms(2) show ?thesis by (simp add: fl_def)
next
  case False
  obtain k where k: "fl x = of_int (round_half_even (x * 2 ^ k)) / 2 ^ k"
    using fl_scale [OF False assms(1)] by blast
  have "of_int (c * 2 ^ k) \<le> x * 2 ^ k" using assms(2) by simp
  then have "c * 2 ^ k \<le> round_half_even (x * 2 ^ k)" by (rule round_half_even_ge)
  then have "(of_int (c * 2 ^ k) :: rat) \<le> of_int (round_half_even (x * 2 ^ k))"
    by (simp only: of_int_le_iff)
  then show ?thesis by (simp add: k le_divide_eq)
qed

lemma fl_of_int: "\<bar>of_int n :: rat\<bar> < 2 ^ 53 \<Longrightarrow> fl (of_int n) = of_int n"
  using fl_le_int [of "of_int n" n] fl_ge_int [of "of_int n" n] by simp

lemma uniform_range:
  assumes "a \<le> b" and "\<bar>a\<bar> < 2 ^ 52" and "\<bar>b\<bar> < 2 ^ 52"
  shows "of_int a \<le> fst (uniform (of_int a) (of_int b) g) \<and>
         fst (uniform (of_int a) (of_int b) g) \<le> of_int b"
proof -
  define u where "u = fst (random g)"
  have u: "0 \<le> u \<and> u < 1" using random_range [of g] by (simp add: u_def)
  define t where "t = fl (of_int (b - a) * u)"
  have small: "\<bar>of_int a :: rat\<bar> < 2 ^ 53" "\<bar>of_int b :: rat\<bar> < 2 ^ 53"
    "\<bar>of_int (b - a) :: rat\<bar> < 2 ^ 53"
  proof -
    have "\<bar>a\<bar> < 2 ^ 53" "\<bar>b\<bar> < 2 ^ 53" "\<bar>b - a\<bar> < 2 ^ 53" using assms by simp_all
    then have "(of_int \<bar>a\<bar> :: rat) < of_int (2 ^ 53)" "(of_int \<bar>b\<bar> :: rat) < of_int (2 ^ 53)"
      "(of_int \<bar>b - a\<bar> :: rat) < of_int (2 ^ 53)"
      by (simp_all only: of_int_less_iff)
    then show "\<bar>of_int a :: rat\<bar> < 2 ^ 53" "\<bar>of_int b :: rat\<bar> < 2 ^ 53"
      "\<bar>of_int (b - a) :: rat\<bar> < 2 ^ 53"
      by simp_all
  qed
  have ba: "(0::rat) \<le> of_int (b - a)" using assms(1) by simp
  have p0: "0 \<le> of_int (b - a) * u" using ba u by simp
  have p1: "of_int (b - a) * u \<le> of_int (b - a)"
    using ba u mult_left_mono [of u 1 "of_int (b - a)"] by simp
  have ps: "\<bar>of_int (b - a) * u\<bar> < 2 ^ 53" using p0 p1 small(3) by simp
  have t0: "of_int 0 \<le> t" unfolding t_def using ps p0 by (intro fl_ge_int) simp_all
  have t1: "t \<le> of_int (b - a)" unfolding t_def using ps p1 by (rule fl_le_int)
  have lo: "of_int a \<le> of_int a + t" using t0 by simp
  have hi: "of_int a + t \<le> of_int b" using t1 by simp
  have xs: "\<bar>of_int a + t\<bar> < 2 ^ 53" using lo hi small(1,2) by (simp add: abs_less_iff)
  have eq: "fst (uniform (of_int a) (of_int b) g) = fl (of_int a + t)"
    using fl_of_int [OF small(1)] fl_of_int [OF small(3)]
    by (simp add: uniform_def u_def t_def case_prod_beta)
  show ?thesis
    unfolding eq using fl_ge_int [OF xs lo] fl_le_int [OF xs hi] by simp
qed

section \<open>Facts about formatted amounts\<close>

lemma is_digits_str_nat: "is_digits (str_nat n)"
  by (simp add: is_digits_def str_nat_nonempty str_nat_digits)

lemma not_digit_minus: "is_digit c \<Longrightarrow> c \<noteq> CHR ''-''"
  by (auto simp: is_digit_def)

lemma two_digits:
  assumes "m < 100"
  shows "length (zfill 2 (str_nat m)) = 2 \<and> is_digits (zfill 2 (str_nat m)) \<and>
         digits_value (zfill 2 (str_nat m)) = m"
proof -
  have "length (str_nat m) \<le> 2" using assms by (intro length_str_nat) simp_all
  then have l: "length (zfill 2 (str_nat m)) = 2" by (rule length_zfill)
  then have "zfill 2 (str_nat m) \<noteq> []" by auto
  then show ?thesis
    using l by (simp add: is_digits_def zfill_digits str_nat_digits digits_value_zfill)
qed

lemma decimal_body:
  assumes "is_digits ip" and "length fp = 2" and "is_digits fp"
  shows "two_decimal_text (ip @ ''.'' @ fp) \<and> two_decimal_text (CHR ''-'' # ip @ ''.'' @ fp) \<and>
         decimal_value (ip @ ''.'' @ fp)
           = Some (of_nat (digits_value ip) + of_nat (digits_value fp) / 100) \<and>
         decimal_value (CHR ''-'' # ip @ ''.'' @ fp)
           = Some (- (of_nat (digits_value ip) + of_nat (digits_value fp) / 100))"
proof -
  obtain c cs where ip: "ip = c # cs" using assms(1) by (cases ip) (auto simp: is_digits_def)
  have c: "c \<noteq> CHR ''-''" using assms(1) ip by (auto simp: is_digits_def not_digit_minus)
  let ?body = "ip @ ''.'' @ fp"
  have n: "length ?body = length ip + 3" using assms(2) by simp
  have t: "take (length ?body - 3) ?body = ip" using assms(2) by simp
  have p: "?body ! (length ?body - 3) = CHR ''.''"
    unfolding n by (simp add: nth_append)
  have d: "drop (length ?body - 2) ?body = fp" using assms(2) by simp
  have four: "4 \<le> length ?body" using n ip by simp
  have body: "(case ?body of [] \<Rightarrow> [] | c # cs \<Rightarrow> if c = CHR ''-'' then cs else ?body) = ?body"
    using c by (simp add: ip)
  have pos: "two_decimal_text ?body"
    unfolding two_decimal_text_def body Let_def using four t p d assms(1,3) by simp
  have neg: "two_decimal_text (CHR ''-'' # ?body)"
    unfolding two_decimal_text_def Let_def using four t p d assms(1,3) by simp
  have tk: "take 1 ?body \<noteq> ''-''" using c by (simp add: ip)
  have vpos: "decimal_value ?body
      = Some (of_nat (digits_value ip) + of_nat (digits_value fp) / 100)"
    unfolding decimal_value_def Let_def using pos tk t d by simp
  have vneg: "decimal_value (CHR ''-'' # ?body)
      = Some (- (of_nat (digits_value ip) + of_nat (digits_value fp) / 100))"
    unfolding decimal_value_def Let_def using neg t d by simp
  show ?thesis using pos neg vpos vneg by simp
qed

lemma split_hundreds: "(of_nat (c div 100) :: rat) + of_nat (c mod 100) / 100 = of_nat c / 100"
proof -
  have "(of_nat c :: rat) = of_nat (c div 100 * 100 + c mod 100)" by simp
  also have "\<dots> = of_nat (c div 100) * 100 + of_nat (c mod 100)"
    by (simp only: of_nat_add of_nat_mult of_nat_numeral)
  finally show ?thesis by simp
qed

lemma format_2f_reads_back:
  "two_decimal_text (format_2f x) \<and> decimal_value (format_2f x) = Some (round2 x)"
proof -
  define c where "c = nat (round_half_even (\<bar>x\<bar> * 100))"
  define ip where "ip = str_nat (c div 100)"
  define fp where "fp = zfill 2 (str_nat (c mod 100))"
  have ip: "is_digits ip" "digits_value ip = c div 100"
    by (simp_all add: ip_def is_digits_str_nat digits_value_str_nat)
  have fp: "length fp = 2" "is_digits fp" "digits_value fp = c mod 100"
    using two_digits [of "c mod 100"] by (simp_all add: fp_def)
  have f: "format_2f x = (if x < 0 then ''-'' else []) @ ip @ ''.'' @ fp"
    by (simp add: format_2f_def c_def ip_def fp_def Let_def)
  have r: "round_half_even (\<bar>x\<bar> * 100) = \<bar>round_half_even (x * 100)\<bar>"
    using round_half_even_abs [of "x * 100"] by (simp add: abs_mult)
  have cv: "(of_nat c :: rat) = of_int \<bar>round_half_even (x * 100)\<bar>"
    unfolding c_def r by simp
  have v: "(of_nat (digits_value ip) :: rat) + of_nat (digits_value fp) / 100
             = of_int \<bar>round_half_even (x * 100)\<bar> / 100"
    using split_hundreds [of c] by (simp add: ip fp cv)
  note b = decimal_body [OF ip(1) fp(1) fp(2)]
  show ?thesis
  proof (cases "x < 0")
    case True
    then have "round_half_even (x * 100) \<le> 0"
      using round_half_even_le [of "x * 100" 0] by (simp add: mult_le_0_iff)
    then have "- (of_int \<bar>round_half_even (x * 100)\<bar> / 100) = round2 x"
      by (simp add: round2_def)
    with True b show ?thesis by (simp add: f v)
  next
    case False
    then have "0 \<le> round_half_even (x * 100)"
      using round_half_even_ge [of 0 "x * 100"] by simp
    then have "of_int \<bar>round_half_even (x * 100)\<bar> / 100 = round2 x"
      by (simp add: round2_def)
    with False b show ?thesis by (simp add: f v)
  qed
qed

section \<open>Facts about formatted dates\<close>

lemma field_digits:
  assumes "0 \<le> i" and "i < 10 ^ w" and "0 < w"
  shows "length (format_0d w i) = w \<and> is_digits (format_0d w i) \<and>
         int (digits_value (format_0d w i)) = i"
proof -
  have l: "length (format_0d w i) = w" using assms by (rule format_0d_length)
  then have "format_0d w i \<noteq> []" using assms(3) by auto
  then show ?thesis
    using l assms(1) by (simp add: is_digits_def format_0d_nonneg)
qed

lemma days_in_month_le: "days_in_month y m \<le> 31"
  by (simp add: days_in_month_def)

lemma date_fields:
  assumes "length Y = 4" and "length M = 2" and "length D = 2"
  shows "length (Y @ ''-'' @ M @ ''-'' @ D) = 10 \<and>
         take 4 (Y @ ''-'' @ M @ ''-'' @ D) = Y \<and>
         (Y @ ''-'' @ M @ ''-'' @ D) ! 4 = CHR ''-'' \<and>
         take 2 (drop 5 (Y @ ''-'' @ M @ ''-'' @ D)) = M \<and>
         (Y @ ''-'' @ M @ ''-'' @ D) ! 7 = CHR ''-'' \<and>
         drop 8 (Y @ ''-'' @ M @ ''-'' @ D) = D"
  using assms by (simp add: nth_append)

lemma strftime_ymd_reads_back:
  assumes "valid_datetime t"
  shows "calendar_date (strftime_ymd t) \<and> date_year (strftime_ymd t) = year t \<and>
         date_month (strftime_ymd t) = month t \<and> date_day (strftime_ymd t) = day t"
proof -
  have d31: "day t \<le> 31"
    using assms days_in_month_le [of "year t" "month t"] by (simp add: valid_datetime_def)
  have y: "length (format_0d 4 (year t)) = 4 \<and> is_digits (format_0d 4 (year t)) \<and>
           int (digits_value (format_0d 4 (year t))) = year t"
    using assms by (intro field_digits) (simp_all add: valid_datetime_def)
  have m: "length (format_0d 2 (month t)) = 2 \<and> is_digits (format_0d 2 (month t)) \<and>
           int (digits_value (format_0d 2 (month t))) = month t"
    using assms by (intro field_digits) (simp_all add: valid_datetime_def)
  have d: "length (format_0d 2 (day t)) = 2 \<and> is_digits (format_0d 2 (day t)) \<and>
           int (digits_value (format_0d 2 (day t))) = day t"
    using assms d31 by (intro field_digits) (simp_all add: valid_datetime_def)
  note f = date_fields [of "format_0d 4 (year t)" "format_0d 2 (month t)" "format_0d 2 (day t)"]
  have parts: "date_like (strftime_ymd t)" "date_year (strftime_ymd t) = year t"
    "date_month (strftime_ymd t) = month t" "date_day (strftime_ymd t) = day t"
    unfolding date_like_def date_year_def date_month_def date_day_def strftime_ymd_def
    using f y m d by simp_all
  show ?thesis
    unfolding calendar_date_def parts using parts(1) assms by (simp add: valid_datetime_def)
qed

section \<open>Evaluating formatted text on concrete values\<close>

lemma digit_char_simps:
  "digit_char 0 = CHR ''0''" "digit_char 1 = CHR ''1''" "digit_char 2 = CHR ''2''"
  "digit_char 3 = CHR ''3''" "digit_char 4 = CHR ''4''" "digit_char 5 = CHR ''5''"
  "digit_char 6 = CHR ''6''" "digit_char 7 = CHR ''7''" "digit_char 8 = CHR ''8''"
  "digit_char 9 = CHR ''9''" "digit_char (Suc 0) = CHR ''1''"
  by code_simp+

lemma replicate_numeral: "replicate (numeral k) x = x # replicate (pred_numeral k) x"
  by (simp add: numeral_eq_Suc)

lemmas text_eval = str_nat.simps zfill_def format_0d_def digit_char_simps format_2f_def
  round_half_even_def round2_def strftime_ymd_def mk_datetime_def Let_def replicate_numeral

section \<open>Faithful rows\<close>

lemma process_transaction_faithful:
  assumes "\<not> should_error er g"
  shows "process_transaction er trx g = ([mirror_row trx], snd (random g))"
  using assms
  by (simp add: process_transaction_def should_error_def mirror_row_def trx_id_of_def
      amount_of_def tx_type_of_def tx_time_of_def Let_def case_prod_beta)

lemma never_error_at_rate_0: "\<not> should_error 0 g"
  using random_range [of g] by (simp add: should_error_def)

lemma process_transactions_rate_0:
  "fst (process_transactions rpb 0 ts rw g) = map mirror_row (take (nat (rpb - rw)) ts)"
proof (induction ts arbitrary: rw g)
  case Nil
  show ?case by simp
next
  case (Cons t ts)
  show ?case
  proof (cases "rw \<ge> rpb")
    case True
    then show ?thesis by simp
  next
    case False
    then have n: "nat (rpb - rw) = Suc (nat (rpb - (rw + 1)))" by simp
    have p: "process_transaction 0 t g = ([mirror_row t], snd (random g))"
      using never_error_at_rate_0 by (rule process_transaction_faithful)
    show ?thesis
      using False Cons.IH [of "rw + 1" "snd (random g)"]
      by (simp add: n p case_prod_beta Let_def)
  qed
qed

lemma mirror_row_reads_back:
  "amount_field (mirror_row trx)
     = Some (CStr (format_2f (if tx_type_of trx = ''DEBIT'' then - amount_of trx else amount_of trx))) \<and>
   two_decimal_text (format_2f (if tx_type_of trx = ''DEBIT'' then - amount_of trx else amount_of trx)) \<and>
   decimal_value (format_2f (if tx_type_of trx = ''DEBIT'' then - amount_of trx else amount_of trx))
     = Some (if tx_type_of trx = ''DEBIT'' then - round2 (amount_of trx) else round2 (amount_of trx))"
  using format_2f_reads_back [of "amount_of trx"] format_2f_reads_back [of "- amount_of trx"]
  by (simp add: mirror_row_def round2_minus)

text \<open>
  Claim C1. A row whose draw is not below the error rate is the mirror of its
  transaction: the id, the amount negated for \<^verbatim>\<open>DEBIT\<close> and unchanged otherwise, written
  by \<^verbatim>\<open>.2f\<close>, and the date written by \<^verbatim>\<open>%Y-%m-%d\<close>. With an error rate of 0 every row
  of the loop is such a mirror. The amount text is a number with exactly two fractional
  digits whose value is the signed amount rounded to hundredths, and the date text of a
  valid \<^verbatim>\<open>datetime\<close> is a calendar date with the same year, month and day.
\<close>

theorem faithful_row_mirrors_transaction:
  "(\<not> should_error er g \<longrightarrow> fst (process_transaction er trx g) = [mirror_row trx]) \<and>
   fst (process_transactions rpb 0 ts rw g) = map mirror_row (take (nat (rpb - rw)) ts) \<and>
   amount_field (mirror_row trx)
     = Some (CStr (format_2f (if tx_type_of trx = ''DEBIT'' then - amount_of trx else amount_of trx))) \<and>
   two_decimal_text (format_2f (if tx_type_of trx = ''DEBIT'' then - amount_of trx else amount_of trx)) \<and>
   decimal_value (format_2f (if tx_type_of trx = ''DEBIT'' then - amount_of trx else amount_of trx))
     = Some (if tx_type_of trx = ''DEBIT'' then - round2 (amount_of trx) else round2 (amount_of trx)) \<and>
   date_field (mirror_row trx) = Some (CStr (strftime_ymd (tx_time_of trx))) \<and>
   (valid_datetime (tx_time_of trx) \<longrightarrow>
      calendar_date (strftime_ymd (tx_time_of trx)) \<and>
      date_year (strftime_ymd (tx_time_of trx)) = year (tx_time_of trx) \<and>
      date_month (strftime_ymd (tx_time_of trx)) = month (tx_time_of trx) \<and>
      date_day (strftime_ymd (tx_time_of trx)) = day (tx_time_of trx))"
proof -
  have a: "\<not> should_error er g \<longrightarrow> fst (process_transaction er trx g) = [mirror_row trx]"
    by (simp add: process_transaction_faithful)
  have d: "date_field (mirror_row trx) = Some (CStr (strftime_ymd (tx_time_of trx)))"
    by (simp add: mirror_row_def)
  show ?thesis
    using a d process_transactions_rate_0 [of rpb ts rw g] mirror_row_reads_back [of trx]
      strftime_ymd_reads_back [of "tx_time_of trx"]
    by blast
qed

theorem faithful_row_mirrors_transaction_witness:
  "\<not> should_error (5 / 100) \<lparr>raw = (\<lambda>i. 2 ^ 52), pos = 0\<rparr> \<and>
   fst (process_transaction (5 / 100) (''TRX00000001'', 2469 / 2, ''DEBIT'', mk_datetime 2024 3 5)
          \<lparr>raw = (\<lambda>i. 2 ^ 52), pos = 0\<rparr>)
     = [[CStr ''TRX00000001'', CStr ''-1234.50'', CStr ''2024-03-05'']] \<and>
   valid_datetime (mk_datetime 2024 3 5) \<and>
   calendar_date ''2024-03-05'' \<and>
   decimal_value ''-1234.50'' = Some (- (2469 / 2))"
proof -
  let ?g = "\<lparr>raw = (\<lambda>i. 2 ^ 52), pos = 0\<rparr>"
  let ?t = "(''TRX00000001'', 2469 / 2 :: rat, ''DEBIT'', mk_datetime 2024 3 5)"
  have h: "\<not> should_error (5 / 100) ?g"
    by (simp add: should_error_def random_def next_raw_def)
  have v: "valid_datetime (mk_datetime 2024 3 5)"
    by (simp add: valid_datetime_def mk_datetime_def days_in_month_def)
  have f: "format_2f (- (2469 / 2)) = ''-1234.50''"
    by (simp add: text_eval)
  have d: "strftime_ymd (mk_datetime 2024 3 5) = ''2024-03-05''"
    by (simp add: text_eval)
  have r: "round2 (2469 / 2) = 2469 / 2"
    by (simp add: round2_def round_half_even_def)
  have m: "mirror_row ?t = [CStr ''TRX00000001'', CStr ''-1234.50'', CStr ''2024-03-05'']"
    by (simp add: mirror_row_def trx_id_of_def amount_of_def tx_type_of_def tx_time_of_def f d)
  have t: "tx_type_of ?t = ''DEBIT''" "amount_of ?t = 2469 / 2" "tx_time_of ?t = mk_datetime 2024 3 5"
    by (simp_all add: amount_of_def tx_type_of_def tx_time_of_def)
  show ?thesis
    using faithful_row_mirrors_transaction [of "5 / 100" ?g ?t 0 "[]" 0] h v
    unfolding m t by (simp add: f d r)
qed

section \<open>The amount-discrepancy defect\<close>

lemma discrepancy_offset_range: "- 100 \<le> discrepancy_offset g \<and> discrepancy_offset g \<le> 100"
  unfolding discrepancy_offset_def
  using uniform_range [of "- 100" 100 "snd (choice error_types (snd (random g)))"] by simp

lemma process_transaction_discrepancy:
  assumes "should_error er g" and "error_type g = ''amount_discrepancy''"
  shows "fst (process_transaction er trx g) =
           [[CStr (trx_id_of trx),
             CStr (if tx_type_of trx = ''DEBIT''
                   then format_2f_negated (discrepancy_amount (amount_of trx) g)
                   else format_2f (discrepancy_amount (amount_of trx) g)),
             CStr (strftime_ymd (tx_time_of trx))]]"
  using assms
  by (simp add: process_transaction_def should_error_def error_type_def discrepancy_offset_def
      discrepancy_amount_def trx_id_of_def amount_of_def tx_type_of_def tx_time_of_def
      Let_def case_prod_beta)

lemma negative_zero_reads_back:
  "two_decimal_text ''-0.00'' \<and> decimal_value ''-0.00'' = Some 0"
proof -
  have "is_digits ''0''" "length ''00'' = 2" "is_digits ''00''"
    by (simp_all add: is_digits_def is_digit_def)
  from decimal_body [OF this] show ?thesis by (simp add: digits_value_def)
qed

lemma format_2f_negated_reads_back:
  "two_decimal_text (format_2f_negated x) \<and>
   decimal_value (format_2f_negated x) = Some (- round2 x)"
proof (cases "x = 0")
  case True
  then show ?thesis
    using negative_zero_reads_back by (simp add: format_2f_negated_def round2_def round_half_even_def)
next
  case False
  then show ?thesis
    using format_2f_reads_back [of "- x"] round2_minus [of x] by (simp add: format_2f_negated_def)
qed

lemma round_half_even_near:
  "r < of_int k + 1 / 2 \<Longrightarrow> round_half_even r \<le> k"
  "of_int k - 1 / 2 < r \<Longrightarrow> k \<le> round_half_even r"
proof -
  note e = round_half_even_error [of r]
  show "round_half_even r \<le> k" if "r < of_int k + 1 / 2"
  proof -
    have "(of_int (round_half_even r) :: rat) < of_int k + 1"
      using e that by linarith
    then have "(of_int (round_half_even r) :: rat) < of_int (k + 1)" by simp
    then have "round_half_even r < k + 1" by (simp only: of_int_less_iff)
    then show ?thesis by simp
  qed
  show "k \<le> round_half_even r" if "of_int k - 1 / 2 < r"
  proof -
    have "(of_int k :: rat) - 1 < of_int (round_half_even r)"
      using e that by linarith
    then have "(of_int (k - 1) :: rat) < of_int (round_half_even r)" by simp
    then have "k - 1 < round_half_even r" by (simp only: of_int_less_iff)
    then show ?thesis by simp
  qed
qed

lemma discrepancy_amount_error:
  "\<bar>discrepancy_amount a g - (a + discrepancy_offset g)\<bar> \<le> (\<bar>a\<bar> + 100) / 2 ^ 51"
proof -
  define d where "d = discrepancy_offset g"
  define x where "x = fl a + d"
  have d: "\<bar>d\<bar> \<le> 100" using discrepancy_offset_range [of g] by (simp add: d_def abs_le_iff)
  have e1: "\<bar>fl a - a\<bar> \<le> \<bar>a\<bar> / 2 ^ 53" by (rule fl_error)
  have "\<bar>a\<bar> / 2 ^ 53 \<le> \<bar>a\<bar>" by (simp add: field_simps)
  then have "\<bar>fl a\<bar> \<le> 2 * \<bar>a\<bar>" using e1 by linarith
  then have x: "\<bar>x\<bar> \<le> 2 * \<bar>a\<bar> + 100" using d unfolding x_def by linarith
  have "\<bar>fl x - x\<bar> \<le> \<bar>x\<bar> / 2 ^ 53" by (rule fl_error)
  also have "\<dots> \<le> (2 * \<bar>a\<bar> + 100) / 2 ^ 53" using x by (simp add: divide_right_mono)
  finally have e2: "\<bar>fl x - x\<bar> \<le> (2 * \<bar>a\<bar> + 100) / 2 ^ 53" .
  have "discrepancy_amount a g - (a + d) = (fl x - x) + (fl a - a)"
    by (simp add: discrepancy_amount_def x_def d_def)
  then have "\<bar>discrepancy_amount a g - (a + d)\<bar> \<le> \<bar>fl x - x\<bar> + \<bar>fl a - a\<bar>"
    by (simp only: abs_triangle_ineq)
  also have "\<dots> \<le> (2 * \<bar>a\<bar> + 100) / 2 ^ 53 + \<bar>a\<bar> / 2 ^ 53" using e1 e2 by linarith
  also have "\<dots> \<le> (\<bar>a\<bar> + 100) / 2 ^ 51" by (simp add: field_simps)
  finally show ?thesis by (simp add: d_def)
qed

lemma rounded_sum_within_100:
  assumes "round2 a = a" and "- 100 \<le> d" and "d \<le> 100" and "\<bar>s - (a + d)\<bar> \<le> 1 / 400"
  shows "\<bar>round2 s - a\<bar> \<le> 100"
proof -
  define c where "c = round_half_even (a * 100)"
  have a: "a = of_int c / 100" using assms(1) by (simp add: round2_def c_def)
  have s: "a + d - 1 / 400 \<le> s" "s \<le> a + d + 1 / 400"
    using assms(4) by linarith+
  have "s * 100 < of_int (c + 10000) + 1 / 2"
    using s(2) assms(3) by (simp add: a)
  then have hi: "round_half_even (s * 100) \<le> c + 10000" by (rule round_half_even_near)
  have "of_int (c - 10000) - 1 / 2 < s * 100"
    using s(1) assms(2) by (simp add: a)
  then have lo: "c - 10000 \<le> round_half_even (s * 100)" by (rule round_half_even_near)
  have "(of_int (c - 10000) :: rat) \<le> of_int (round_half_even (s * 100))"
    "(of_int (round_half_even (s * 100)) :: rat) \<le> of_int (c + 10000)"
    using lo hi by (simp_all only: of_int_le_iff)
  then have "a - 100 \<le> round2 s \<and> round2 s \<le> a + 100"
    by (simp add: a round2_def field_simps)
  then show ?thesis by (simp add: abs_le_iff)
qed

lemma written_discrepancy_within_100:
  assumes "round2 a = a" and "\<bar>a\<bar> \<le> 10 ^ 9"
  shows "\<bar>round2 (discrepancy_amount a g) - a\<bar> \<le> 100"
proof -
  have "(\<bar>a\<bar> + 100) / 2 ^ 51 \<le> 1 / 400" using assms(2) by simp
  then have "\<bar>discrepancy_amount a g - (a + discrepancy_offset g)\<bar> \<le> 1 / 400"
    using discrepancy_amount_error [of a g] by linarith
  then show ?thesis
    using assms(1) discrepancy_offset_range [of g] by (intro rounded_sum_within_100) simp_all
qed

lemma fl_examples:
  "fl 0 = 0" "fl 200 = 200" "fl 50 = 50" "fl (- 100) = - 100" "fl (- 50) = - 50" "fl 1234 = 1234"
  "fl 1184 = 1184" "fl (25 / 8) = 25 / 8" "fl (- (775 / 8)) = - (775 / 8)"
  "fl (2501 / 25) = 7039689167533507 / 70368744177664"
  "fl (222717075322307 / 70368744177664) = 222717075322307 / 70368744177664"
  by code_simp+

text \<open>
  Claim C8. A row that takes the \<^verbatim>\<open>amount_discrepancy\<close> branch is written from the float
  sum of the true amount and an offset drawn in \<open>[-100, 100]\<close>, with the sign convention
  applied afterwards and \<^verbatim>\<open>.2f\<close> last. Its amount text reads back as a number with two
  fractional digits, and the date text of a valid \<^verbatim>\<open>datetime\<close> is a calendar date. For
  an authoritative amount with two decimals, of magnitude at most \<open>10\<^sup>9\<close>, the amount
  written, taken before the sign, differs from the authoritative amount by at most 100.
\<close>

theorem discrepancy_row_within_100:
  assumes "should_error er g" and "error_type g = ''amount_discrepancy''"
  shows "- 100 \<le> discrepancy_offset g \<and> discrepancy_offset g \<le> 100 \<and>
         discrepancy_amount (amount_of trx) g = fl (fl (amount_of trx) + discrepancy_offset g) \<and>
         fst (process_transaction er trx g) =
           [[CStr (trx_id_of trx),
             CStr (if tx_type_of trx = ''DEBIT''
                   then format_2f_negated (discrepancy_amount (amount_of trx) g)
                   else format_2f (discrepancy_amount (amount_of trx) g)),
             CStr (strftime_ymd (tx_time_of trx))]] \<and>
         decimal_value (if tx_type_of trx = ''DEBIT''
                        then format_2f_negated (discrepancy_amount (amount_of trx) g)
                        else format_2f (discrepancy_amount (amount_of trx) g))
           = Some (if tx_type_of trx = ''DEBIT''
                   then - round2 (discrepancy_amount (amount_of trx) g)
                   else round2 (discrepancy_amount (amount_of trx) g)) \<and>
         (round2 (amount_of trx) = amount_of trx \<and> \<bar>amount_of trx\<bar> \<le> 10 ^ 9 \<longrightarrow>
            \<bar>round2 (discrepancy_amount (amount_of trx) g) - amount_of trx\<bar> \<le> 100) \<and>
         (valid_datetime (tx_time_of trx) \<longrightarrow> calendar_date (strftime_ymd (tx_time_of trx)))"
proof -
  note r = discrepancy_offset_range [of g]
  have s: "discrepancy_amount (amount_of trx) g = fl (fl (amount_of trx) + discrepancy_offset g)"
    by (simp add: discrepancy_amount_def)
  have v: "decimal_value (if tx_type_of trx = ''DEBIT''
                        then format_2f_negated (discrepancy_amount (amount_of trx) g)
                        else format_2f (discrepancy_amount (amount_of trx) g))
           = Some (if tx_type_of trx = ''DEBIT''
                   then - round2 (discrepancy_amount (amount_of trx) g)
                   else round2 (discrepancy_amount (amount_of trx) g))"
    using format_2f_reads_back [of "discrepancy_amount (amount_of trx) g"]
      format_2f_negated_reads_back [of "discrepancy_amount (amount_of trx) g"]
    by simp
  have c: "round2 (amount_of trx) = amount_of trx \<and> \<bar>amount_of trx\<bar> \<le> 10 ^ 9 \<longrightarrow>
            \<bar>round2 (discrepancy_amount (amount_of trx) g) - amount_of trx\<bar> \<le> 100"
    using written_discrepancy_within_100 [of "amount_of trx" g] by blast
  have d: "valid_datetime (tx_time_of trx) \<longrightarrow> calendar_date (strftime_ymd (tx_time_of trx))"
    by (simp add: strftime_ymd_reads_back)
  show ?thesis
    using r s process_transaction_discrepancy [OF assms, of trx] v c d by blast
qed

theorem discrepancy_row_within_100_witness:
  "should_error (5 / 100) \<lparr>raw = (\<lambda>i. if i = 0 then 0 else if i = 1 then 3 else 2 ^ 51), pos = 0\<rparr> \<and>
   error_type \<lparr>raw = (\<lambda>i. if i = 0 then 0 else if i = 1 then 3 else 2 ^ 51), pos = 0\<rparr>
     = ''amount_discrepancy'' \<and>
   discrepancy_offset \<lparr>raw = (\<lambda>i. if i = 0 then 0 else if i = 1 then 3 else 2 ^ 51), pos = 0\<rparr>
     = - 50 \<and>
   discrepancy_amount 1234
       \<lparr>raw = (\<lambda>i. if i = 0 then 0 else if i = 1 then 3 else 2 ^ 51), pos = 0\<rparr> = 1184 \<and>
   fst (process_transaction (5 / 100) (''TRX00000001'', 1234, ''DEBIT'', mk_datetime 2024 3 5)
          \<lparr>raw = (\<lambda>i. if i = 0 then 0 else if i = 1 then 3 else 2 ^ 51), pos = 0\<rparr>)
     = [[CStr ''TRX00000001'', CStr ''-1184.00'', CStr ''2024-03-05'']] \<and>
   decimal_value ''-1184.00'' = Some (- 1184) \<and>
   round2 1234 = 1234 \<and> \<bar>1234 :: rat\<bar> \<le> 10 ^ 9 \<and>
   \<bar>(1184 :: rat) - 1234\<bar> \<le> 100 \<and>
   valid_datetime (mk_datetime 2024 3 5) \<and> calendar_date ''2024-03-05''"
proof -
  let ?g = "\<lparr>raw = (\<lambda>i. if i = 0 then 0 else if i = 1 then 3 else 2 ^ 51), pos = 0\<rparr>"
  let ?t = "(''TRX00000001'', 1234 :: rat, ''DEBIT'', mk_datetime 2024 3 5)"
  have h1: "should_error (5 / 100) ?g"
    by (simp add: should_error_def random_def next_raw_def)
  have h2: "error_type ?g = ''amount_discrepancy''"
    by (simp add: error_type_def random_def next_raw_def choice_def randbelow_def error_types_def)
  have o: "discrepancy_offset ?g = - 50"
    by (simp add: discrepancy_offset_def uniform_def random_def next_raw_def choice_def
        randbelow_def error_types_def fl_examples)
  have a: "discrepancy_amount 1234 ?g = 1184"
    unfolding discrepancy_amount_def o by (simp add: fl_examples)
  have v: "valid_datetime (mk_datetime 2024 3 5)"
    by (simp add: valid_datetime_def mk_datetime_def days_in_month_def)
  have f: "format_2f_negated 1184 = ''-1184.00''"
    by (simp add: format_2f_negated_def text_eval)
  have d: "strftime_ymd (mk_datetime 2024 3 5) = ''2024-03-05''"
    by (simp add: text_eval)
  have r: "round2 1234 = 1234" "round2 1184 = 1184"
    by (simp_all add: round2_def round_half_even_def)
  have t: "trx_id_of ?t = ''TRX00000001''" "tx_type_of ?t = ''DEBIT''" "amount_of ?t = 1234"
    "tx_time_of ?t = mk_datetime 2024 3 5"
    by (simp_all add: trx_id_of_def amount_of_def tx_type_of_def tx_time_of_def)
  show ?thesis
    using discrepancy_row_within_100 [OF h1 h2, of ?t] h1 h2 v
    unfolding t a o by (simp add: f d r)
qed

text \<open>
  Two rows whose text depends on the float arithmetic. The amount 100.04 with the
  offset -96.875: the decimal sum 3.165 lies halfway between two hundredths, the float
  sum lies above it, and the row carries \<^verbatim>\<open>3.17\<close>. A \<^verbatim>\<open>DEBIT\<close> of 50.00 with the offset
  -50.0: the sum is zero, its negation is the negative zero, and the row carries
  \<^verbatim>\<open>-0.00\<close>.
\<close>

lemma discrepancy_row_near_tie:
  "fst (process_transaction (5 / 100) (''TRX00000001'', 2501 / 25, ''CREDIT'', mk_datetime 2024 3 5)
          \<lparr>raw = (\<lambda>i. if i = 0 then 0 else if i = 1 then 3 else 2 ^ 47), pos = 0\<rparr>)
     = [[CStr ''TRX00000001'', CStr ''3.17'', CStr ''2024-03-05'']]"
proof -
  let ?g = "\<lparr>raw = (\<lambda>i. if i = 0 then 0 else if i = 1 then 3 else 2 ^ 47), pos = 0\<rparr>"
  let ?t = "(''TRX00000001'', 2501 / 25 :: rat, ''CREDIT'', mk_datetime 2024 3 5)"
  have h1: "should_error (5 / 100) ?g"
    by (simp add: should_error_def random_def next_raw_def)
  have h2: "error_type ?g = ''amount_discrepancy''"
    by (simp add: error_type_def random_def next_raw_def choice_def randbelow_def error_types_def)
  have o: "discrepancy_offset ?g = - (775 / 8)"
    by (simp add: discrepancy_offset_def uniform_def random_def next_raw_def choice_def
        randbelow_def error_types_def fl_examples)
  have a: "discrepancy_amount (2501 / 25) ?g = 222717075322307 / 70368744177664"
    unfolding discrepancy_amount_def o by (simp add: fl_examples)
  have c: "round_half_even (\<bar>222717075322307 / 70368744177664\<bar> * 100) = 317"
    by code_simp
  have f: "format_2f (222717075322307 / 70368744177664) = ''3.17''"
    unfolding format_2f_def Let_def c
    by (simp add: str_nat.simps zfill_def digit_char_simps replicate_numeral)
  have d: "strftime_ymd (mk_datetime 2024 3 5) = ''2024-03-05''"
    by (simp add: text_eval)
  have t: "trx_id_of ?t = ''TRX00000001''" "tx_type_of ?t = ''CREDIT''" "amount_of ?t = 2501 / 25"
    "tx_time_of ?t = mk_datetime 2024 3 5"
    by (simp_all add: trx_id_of_def amount_of_def tx_type_of_def tx_time_of_def)
  show ?thesis
    using process_transaction_discrepancy [OF h1 h2, of ?t]
    unfolding t a by (simp add: f d)
qed

lemma discrepancy_row_negative_zero:
  "fst (process_transaction (5 / 100) (''TRX00000001'', 50, ''DEBIT'', mk_datetime 2024 3 5)
          \<lparr>raw = (\<lambda>i. if i = 0 then 0 else if i = 1 then 3 else 2 ^ 51), pos = 0\<rparr>)
     = [[CStr ''TRX00000001'', CStr ''-0.00'', CStr ''2024-03-05'']]"
proof -
  let ?g = "\<lparr>raw = (\<lambda>i. if i = 0 then 0 else if i = 1 then 3 else 2 ^ 51), pos = 0\<rparr>"
  let ?t = "(''TRX00000001'', 50 :: rat, ''DEBIT'', mk_datetime 2024 3 5)"
  have h1: "should_error (5 / 100) ?g"
    by (simp add: should_error_def random_def next_raw_def)
  have h2: "error_type ?g = ''amount_discrepancy''"
    by (simp add: error_type_def random_def next_raw_def choice_def randbelow_def error_types_def)
  have o: "discrepancy_offset ?g = - 50"
    by (simp add: discrepancy_offset_def uniform_def random_def next_raw_def choice_def
        randbelow_def error_types_def fl_examples)
  have a: "discrepancy_amount 50 ?g = 0"
    unfolding discrepancy_amount_def o by (simp add: fl_examples)
  have d: "strftime_ymd (mk_datetime 2024 3 5) = ''2024-03-05''"
    by (simp add: text_eval)
  have t: "trx_id_of ?t = ''TRX00000001''" "tx_type_of ?t = ''DEBIT''" "amount_of ?t = 50"
    "tx_time_of ?t = mk_datetime 2024 3 5"
    by (simp_all add: trx_id_of_def amount_of_def tx_type_of_def tx_time_of_def)
  show ?thesis
    using process_transaction_discrepancy [OF h1 h2, of ?t]
    unfolding t a by (simp add: format_2f_negated_def d)
qed

section \<open>The amount of a malformed-date row\<close>

lemma sentinel_shape:
  "date_like ''2024-13-45'' \<and> date_year ''2024-13-45'' = 2024 \<and>
   date_month ''2024-13-45'' = 13 \<and> date_day ''2024-13-45'' = 45"
  by (simp add: date_like_def date_year_def date_month_def date_day_def is_digits_def
      is_digit_def digits_value_def)

lemma sentinel_not_calendar: "\<not> calendar_date ''2024-13-45''"
  using sentinel_shape by (simp add: calendar_date_def)

text \<open>
  Claim C2 says that a malformed-date row has a date text that looks like a date but is
  not one, and an amount that is valid and correctly signed. The first half holds: the
  sentinel has the shape of a date, with month 13 and day 45. The second half does not:
  the \<^verbatim>\<open>wrong_format_date\<close> branch hands the raw \<^verbatim>\<open>amount\<close> to the writer, without the
  sign convention and without \<^verbatim>\<open>.2f\<close>, where the faithful and the discrepancy branch
  write \<^verbatim>\<open>bank_amount\<close>. For a \<^verbatim>\<open>DEBIT\<close> of 50.00 the row carries the positive number
  50, while the mirror of the same transaction carries \<^verbatim>\<open>-50.00\<close>.
\<close>

theorem malformed_date_row_keeps_raw_amount:
  "fst (process_transaction (5 / 100) (''TRX00000001'', 50, ''DEBIT'', mk_datetime 2024 3 5)
          \<lparr>raw = (\<lambda>i. i), pos = 0\<rparr>)
     = [[CStr ''TRX00000001'', CNum 50, CStr ''2024-13-45'']] \<and>
   mirror_row (''TRX00000001'', 50, ''DEBIT'', mk_datetime 2024 3 5)
     = [CStr ''TRX00000001'', CStr ''-50.00'', CStr ''2024-03-05''] \<and>
   date_like ''2024-13-45'' \<and> date_month ''2024-13-45'' = 13 \<and> date_day ''2024-13-45'' = 45 \<and>
   \<not> calendar_date ''2024-13-45''"
proof -
  let ?g = "\<lparr>raw = (\<lambda>i. i), pos = 0\<rparr>"
  have r: "random ?g = (0, \<lparr>raw = (\<lambda>i. i), pos = 1\<rparr>)"
    by (simp add: random_def next_raw_def)
  have c: "fst (choice error_types \<lparr>raw = (\<lambda>i. i), pos = 1\<rparr>) = ''wrong_format_date''"
    by (simp add: choice_def randbelow_def next_raw_def error_types_def)
  have p: "fst (process_transaction (5 / 100) (''TRX00000001'', 50, ''DEBIT'', mk_datetime 2024 3 5) ?g)
     = [[CStr ''TRX00000001'', CNum 50, CStr ''2024-13-45'']]"
    using c by (simp add: process_transaction_def r Let_def case_prod_beta)
  have m: "mirror_row (''TRX00000001'', 50, ''DEBIT'', mk_datetime 2024 3 5)
     = [CStr ''TRX00000001'', CStr ''-50.00'', CStr ''2024-03-05'']"
    by (simp add: mirror_row_def trx_id_of_def amount_of_def tx_type_of_def tx_time_of_def text_eval)
  show ?thesis
    using p m sentinel_shape sentinel_not_calendar by simp
qed

section \<open>Distributing the transactions over the banks\<close>

lemma shuffle_loop_mset:
  "i < length xs \<or> xs = [] \<and> i = 0 \<Longrightarrow> mset (fst (shuffle_loop i xs g)) = mset xs"
proof (induction i arbitrary: xs g)
  case 0
  show ?case by simp
next
  case (Suc i)
  then have i: "Suc i < length xs" by auto
  define j where "j = fst (randbelow (Suc i + 1) g)"
  have "j < Suc i + 1" unfolding j_def by (rule randbelow_less) simp
  then have j: "j < length xs" using i by simp
  let ?ys = "xs[Suc i := xs ! j, j := xs ! Suc i]"
  have m: "mset ?ys = mset xs" using j i by (rule mset_swap)
  have "i < length ?ys" using i by simp
  then have "mset (fst (shuffle_loop i ?ys (snd (randbelow (Suc i + 1) g)))) = mset ?ys"
    using Suc.IH by blast
  then show ?case using m by (simp add: case_prod_beta j_def)
qed

lemma shuffle_mset: "mset (fst (shuffle xs g)) = mset xs"
proof (cases xs)
  case Nil
  then show ?thesis by (simp add: shuffle_def)
next
  case (Cons a as)
  then show ?thesis unfolding shuffle_def by (intro shuffle_loop_mset) simp
qed

lemma shuffle_distinct_ids:
  assumes "distinct (map trx_id_of xs)"
  shows "distinct (map trx_id_of (fst (shuffle xs g)))"
proof -
  have "mset (map trx_id_of (fst (shuffle xs g))) = mset (map trx_id_of xs)"
    by (simp add: shuffle_mset)
  then show ?thesis using assms mset_eq_imp_distinct_iff by blast
qed

lemma py_slice_window:
  assumes "0 \<le> s" and "0 \<le> n"
  shows "py_slice xs s (s + n) = take (nat n) (drop (nat s) xs)"
proof (cases "s \<le> int (length xs)")
  case True
  show ?thesis
  proof (cases "s + n \<le> int (length xs)")
    case True
    with assms \<open>s \<le> int (length xs)\<close> show ?thesis
      by (simp add: py_slice_def Let_def min_def)
  next
    case False
    then have "length (drop (nat s) xs) \<le> nat n" using assms by simp
    with False assms \<open>s \<le> int (length xs)\<close> show ?thesis
      by (simp add: py_slice_def Let_def min_def)
  qed
next
  case False
  with assms show ?thesis
    by (simp add: py_slice_def Let_def min_def)
qed

lemma bank_transactions_window:
  assumes "0 \<le> i" and "0 < NUM_BANK_FILES cfg" and "0 \<le> ROWS_PER_BANK cfg"
  shows "bank_transactions cfg av i =
           take (nat (ROWS_PER_BANK cfg))
             (drop (nat (i * (int (length av) div NUM_BANK_FILES cfg))) av)"
proof -
  have "0 \<le> int (length av) div NUM_BANK_FILES cfg"
    using assms(2) by (simp add: pos_imp_zdiv_nonneg_iff)
  then have "0 \<le> i * (int (length av) div NUM_BANK_FILES cfg)" using assms(1) by simp
  then show ?thesis
    using assms(3) by (simp add: bank_transactions_def Let_def py_slice_window)
qed

lemma windows_disjoint:
  assumes "distinct ys" and "a + n \<le> b"
  shows "set (take n (drop a ys)) \<inter> set (take m (drop b ys)) = {}"
proof -
  have "set (take n (drop a ys)) \<subseteq> set (take (a + n) ys)"
    by (metis add.commute set_drop_subset take_drop)
  also have "\<dots> \<subseteq> set (take b ys)" using assms(2) by (rule set_take_subset_set_take)
  finally have l: "set (take n (drop a ys)) \<subseteq> set (take b ys)" .
  have r: "set (take m (drop b ys)) \<subseteq> set (drop b ys)" by (rule set_take_subset)
  have "set (take b ys) \<inter> set (drop b ys) = {}"
    using assms(1) by (intro set_take_disj_set_drop_if_distinct) simp_all
  with l r show ?thesis by blast
qed

lemma eleven_mod:
  "(11::nat) mod Suc (Suc 0) = Suc 0" "(11::nat) mod Suc (Suc (Suc 0)) = Suc (Suc 0)"
  "(11::nat) mod Suc (Suc (Suc (Suc 0))) = Suc (Suc (Suc 0))"
  by code_simp+

lemma shuffle_four:
  "fst (shuffle four_transactions \<lparr>raw = (\<lambda>i. 11), pos = 0\<rparr>) = four_transactions"
  by (simp add: shuffle_def four_transactions_def randbelow_def next_raw_def eleven_mod)

lemma ids_four:
  "map trx_id_of four_transactions
     = [''TRX00000001'', ''TRX00000002'', ''TRX00000003'', ''TRX00000004'']"
  by (simp add: four_transactions_def trx_id_of_def)

text \<open>
  Claim C3 says that the windows of two different banks never share a transaction,
  whatever the number of banks, \<^verbatim>\<open>ROWS_PER_BANK\<close> and the size of the pool. The windows
  start \<^verbatim>\<open>len(available_transactions) // NUM_BANK_FILES\<close> apart and are
  \<^verbatim>\<open>ROWS_PER_BANK\<close> long, so they overlap as soon as \<^verbatim>\<open>ROWS_PER_BANK\<close> exceeds that
  distance: with four transactions, two banks and \<^verbatim>\<open>ROWS_PER_BANK = 4\<close> the first bank
  gets all four and the second gets the last two again.
\<close>

theorem overlapping_bank_windows:
  "map trx_id_of (bank_transactions (script_config\<lparr>NUM_BANK_FILES := 2, ROWS_PER_BANK := 4\<rparr>)
        (fst (shuffle four_transactions \<lparr>raw = (\<lambda>i. 11), pos = 0\<rparr>)) 0)
     = [''TRX00000001'', ''TRX00000002'', ''TRX00000003'', ''TRX00000004''] \<and>
   map trx_id_of (bank_transactions (script_config\<lparr>NUM_BANK_FILES := 2, ROWS_PER_BANK := 4\<rparr>)
        (fst (shuffle four_transactions \<lparr>raw = (\<lambda>i. 11), pos = 0\<rparr>)) 1)
     = [''TRX00000003'', ''TRX00000004''] \<and>
   set (map trx_id_of (bank_transactions (script_config\<lparr>NUM_BANK_FILES := 2, ROWS_PER_BANK := 4\<rparr>)
        (fst (shuffle four_transactions \<lparr>raw = (\<lambda>i. 11), pos = 0\<rparr>)) 0)) \<inter>
   set (map trx_id_of (bank_transactions (script_config\<lparr>NUM_BANK_FILES := 2, ROWS_PER_BANK := 4\<rparr>)
        (fst (shuffle four_transactions \<lparr>raw = (\<lambda>i. 11), pos = 0\<rparr>)) 1)) \<noteq> {}"
proof -
  let ?cfg = "script_config\<lparr>NUM_BANK_FILES := 2, ROWS_PER_BANK := 4\<rparr>"
  have a: "map trx_id_of (bank_transactions ?cfg four_transactions 0)
     = [''TRX00000001'', ''TRX00000002'', ''TRX00000003'', ''TRX00000004'']"
    by (simp add: bank_transactions_def py_slice_def script_config_def four_transactions_def
        trx_id_of_def)
  have b: "map trx_id_of (bank_transactions ?cfg four_transactions 1)
     = [''TRX00000003'', ''TRX00000004'']"
    by (simp add: bank_transactions_def py_slice_def script_config_def four_transactions_def
        trx_id_of_def)
  show ?thesis
    unfolding shuffle_four a b by simp
qed

text \<open>
  Claim C3, as amended. When the ids of the system transactions are distinct,
  \<^verbatim>\<open>NUM_BANK_FILES\<close> is positive and \<^verbatim>\<open>ROWS_PER_BANK\<close> lies between 0 and
  \<^verbatim>\<open>len(system_transactions) // NUM_BANK_FILES\<close>, the bank with index \<open>i\<close> gets the window
  of \<^verbatim>\<open>ROWS_PER_BANK\<close> transactions that starts at \<open>i * (len // NUM_BANK_FILES)\<close> in the
  shuffled list, and the windows of two different banks share no transaction id.
\<close>

theorem bank_windows_disjoint:
  assumes "distinct (map trx_id_of system_transactions)"
    and "0 < NUM_BANK_FILES cfg"
    and "0 \<le> ROWS_PER_BANK cfg"
    and "ROWS_PER_BANK cfg \<le> int (length system_transactions) div NUM_BANK_FILES cfg"
    and "0 \<le> i" and "i < j"
  shows "bank_transactions cfg (fst (shuffle system_transactions g)) i =
           take (nat (ROWS_PER_BANK cfg))
             (drop (nat (i * (int (length system_transactions) div NUM_BANK_FILES cfg)))
                (fst (shuffle system_transactions g))) \<and>
         set (map trx_id_of (bank_transactions cfg (fst (shuffle system_transactions g)) i)) \<inter>
         set (map trx_id_of (bank_transactions cfg (fst (shuffle system_transactions g)) j)) = {}"
proof -
  define av where "av = fst (shuffle system_transactions g)"
  define q where "q = int (length system_transactions) div NUM_BANK_FILES cfg"
  define R where "R = ROWS_PER_BANK cfg"
  have len: "length av = length system_transactions"
    unfolding av_def using shuffle_mset [of system_transactions g] by (metis size_mset)
  have d: "distinct (map trx_id_of av)"
    unfolding av_def using assms(1) by (rule shuffle_distinct_ids)
  have q0: "0 \<le> q" unfolding q_def using assms(2) by (simp add: pos_imp_zdiv_nonneg_iff)
  have wi: "bank_transactions cfg av i = take (nat R) (drop (nat (i * q)) av)"
    unfolding R_def q_def len [symmetric] using assms(5,2,3) by (rule bank_transactions_window)
  have "0 \<le> j" using assms(5,6) by simp
  then have wj: "bank_transactions cfg av j = take (nat R) (drop (nat (j * q)) av)"
    unfolding R_def q_def len [symmetric] using assms(2,3) by (rule bank_transactions_window)
  have "i * q + R \<le> i * q + q" using assms(4) by (simp add: R_def q_def)
  also have "\<dots> = (i + 1) * q" by (simp add: algebra_simps)
  also have "\<dots> \<le> j * q" using assms(6) q0 by (intro mult_right_mono) simp_all
  finally have "i * q + R \<le> j * q" .
  then have le: "nat (i * q) + nat R \<le> nat (j * q)"
    using assms(3,5) q0 by (simp add: R_def nat_add_distrib [symmetric] nat_le_eq_zle)
  have "set (take (nat R) (drop (nat (i * q)) (map trx_id_of av))) \<inter>
        set (take (nat R) (drop (nat (j * q)) (map trx_id_of av))) = {}"
    using d le by (rule windows_disjoint)
  then have "set (map trx_id_of (bank_transactions cfg av i)) \<inter>
             set (map trx_id_of (bank_transactions cfg av j)) = {}"
    by (simp add: wi wj take_map drop_map)
  then show ?thesis
    using wi by (simp add: av_def R_def q_def)
qed

theorem bank_windows_disjoint_witness:
  "distinct (map trx_id_of four_transactions) \<and>
   (0::int) < NUM_BANK_FILES (script_config\<lparr>NUM_BANK_FILES := 2, ROWS_PER_BANK := 2\<rparr>) \<and>
   (0::int) \<le> ROWS_PER_BANK (script_config\<lparr>NUM_BANK_FILES := 2, ROWS_PER_BANK := 2\<rparr>) \<and>
   ROWS_PER_BANK (script_config\<lparr>NUM_BANK_FILES := 2, ROWS_PER_BANK := 2\<rparr>)
     \<le> int (length four_transactions)
         div NUM_BANK_FILES (script_config\<lparr>NUM_BANK_FILES := 2, ROWS_PER_BANK := 2\<rparr>) \<and>
   (0::int) \<le> 0 \<and> (0::int) < 1 \<and>
   set (map trx_id_of (bank_transactions (script_config\<lparr>NUM_BANK_FILES := 2, ROWS_PER_BANK := 2\<rparr>)
        (fst (shuffle four_transactions \<lparr>raw = (\<lambda>i. 11), pos = 0\<rparr>)) 0)) \<inter>
   set (map trx_id_of (bank_transactions (script_config\<lparr>NUM_BANK_FILES := 2, ROWS_PER_BANK := 2\<rparr>)
        (fst (shuffle four_transactions \<lparr>raw = (\<lambda>i. 11), pos = 0\<rparr>)) 1)) = {}"
proof -
  let ?cfg = "script_config\<lparr>NUM_BANK_FILES := 2, ROWS_PER_BANK := 2\<rparr>"
  have h1: "distinct (map trx_id_of four_transactions)"
    by (simp add: ids_four)
  have h2: "0 < NUM_BANK_FILES ?cfg" by simp
  have h3: "0 \<le> ROWS_PER_BANK ?cfg" by simp
  have h4: "ROWS_PER_BANK ?cfg \<le> int (length four_transactions) div NUM_BANK_FILES ?cfg"
    by (simp add: four_transactions_def)
  have h5: "(0::int) \<le> 0" by simp
  have h6: "(0::int) < 1" by simp
  show ?thesis
    using bank_windows_disjoint [OF h1 h2 h3 h4 h5 h6, of "\<lparr>raw = (\<lambda>i. 11), pos = 0\<rparr>"]
      h1 h2 h3 h4 h5 h6
    by blast
qed

section \<open>The generated system transactions\<close>

lemma generate_random_amount_range:
  "10 \<le> fst (generate_random_amount g) \<and> fst (generate_random_amount g) \<le> 10000 \<and>
   round2 (fst (generate_random_amount g)) = fst (generate_random_amount g)"
proof -
  define x where "x = fst (uniform 10 10000 g)"
  have x: "10 \<le> x \<and> x \<le> 10000"
    unfolding x_def using uniform_range [of 10 10000 g] by simp
  have "of_int 1000 / 100 \<le> round2 x \<and> round2 x \<le> of_int 1000000 / 100"
    using x by (intro round2_bounds) simp_all
  then have "10 \<le> round2 x \<and> round2 x \<le> 10000" by simp
  moreover have "fst (generate_random_amount g) = round2 x"
    by (simp add: generate_random_amount_def x_def case_prod_beta)
  ultimately show ?thesis by (simp add: round2_idem)
qed

lemma generate_transactions_props:
  assumes "generate_transactions is g = Inr (txs, g')"
  shows "map trx_id_of txs = map generate_transaction_id is \<and>
         (\<forall>t \<in> set txs. 10 \<le> amount_of t \<and> amount_of t \<le> 10000 \<and>
                          round2 (amount_of t) = amount_of t)"
  using assms
proof (induction "is" arbitrary: g txs g')
  case Nil
  then show ?case by simp
next
  case (Cons i "is")
  obtain a g1 where a: "generate_random_amount g = (a, g1)" by (cases "generate_random_amount g")
  obtain ty g2 where ty: "choice TYPES g1 = (ty, g2)" by (cases "choice TYPES g1")
  obtain t g3 where t:
    "generate_random_datetime (mk_datetime 2024 1 1) (mk_datetime 2024 12 31) g2 = Inr (t, g3)"
    using generate_random_datetime_2024 by blast
  obtain rest g4 where r: "generate_transactions is g3 = Inr (rest, g4)"
    using generate_transactions_total by blast
  have txs: "txs = (generate_transaction_id i, a, ty, t) # rest"
    using Cons.prems by (simp add: a ty t r)
  have ar: "10 \<le> a \<and> a \<le> 10000 \<and> round2 a = a"
    using generate_random_amount_range [of g] by (simp add: a)
  show ?case
    using Cons.IH [OF r] ar by (simp add: txs trx_id_of_def amount_of_def)
qed

lemma distinct_transaction_ids: "distinct (map generate_transaction_id [1..n])"
proof -
  have "inj_on generate_transaction_id (set [1..n])"
    by (rule inj_onI) (simp add: generate_transaction_id_inj)
  then show ?thesis by (simp add: distinct_map)
qed

lemma create_postgres_transactions_result:
  assumes "generate_transactions [1..NUM_TRANSACTIONS cfg] g = Inr (txs, g')"
  shows "fst (create_postgres_transactions cfg None w g) = Inr txs"
  using assms by (simp add: create_postgres_transactions_def Let_def)

text \<open>
  Claim C7. For a positive \<^verbatim>\<open>NUM_TRANSACTIONS\<close> and a database that does not fail,
  \<^verbatim>\<open>create_postgres_transactions\<close> returns exactly \<^verbatim>\<open>NUM_TRANSACTIONS\<close> transactions; the
  \<open>k\<close>-th of them (from 0) has the id \<^verbatim>\<open>TRX\<close> followed by \<open>k + 1\<close> in the format
  \<^verbatim>\<open>08d\<close>, so the sequence numbers run from 1 upwards; the ids are pairwise different;
  and every amount lies in \<open>[10, 10000]\<close> and is a multiple of one hundredth. A sequence
  number below \<open>10\<^sup>8\<close> is written on exactly eight digits.
\<close>

theorem generated_transactions:
  assumes "0 < NUM_TRANSACTIONS cfg"
  shows "\<exists>txs. fst (create_postgres_transactions cfg None w g) = Inr txs \<and>
           length txs = nat (NUM_TRANSACTIONS cfg) \<and>
           (\<forall>k < nat (NUM_TRANSACTIONS cfg).
              trx_id_of (txs ! k) = ''TRX'' @ format_0d 8 (int k + 1)) \<and>
           distinct (map trx_id_of txs) \<and>
           (\<forall>t \<in> set txs. 10 \<le> amount_of t \<and> amount_of t \<le> 10000 \<and>
                            round2 (amount_of t) = amount_of t) \<and>
           (\<forall>i. 1 \<le> i \<and> i < 10 ^ 8 \<longrightarrow>
              length (format_0d 8 i) = 8 \<and> is_digits (format_0d 8 i) \<and>
              int (digits_value (format_0d 8 i)) = i)"
proof -
  let ?n = "NUM_TRANSACTIONS cfg"
  obtain txs g' where t: "generate_transactions [1..?n] g = Inr (txs, g')"
    using generate_transactions_total by blast
  note p = generate_transactions_props [OF t]
  have ids: "map trx_id_of txs = map generate_transaction_id [1..?n]" using p by simp
  have "length (map trx_id_of txs) = length [1..?n]" unfolding ids by simp
  then have len: "length txs = nat ?n" by simp
  have nth: "\<forall>k < nat ?n. trx_id_of (txs ! k) = ''TRX'' @ format_0d 8 (int k + 1)"
  proof (intro allI impI)
    fix k assume k: "k < nat ?n"
    then have "trx_id_of (txs ! k) = map trx_id_of txs ! k" using len by simp
    also have "\<dots> = generate_transaction_id ([1..?n] ! k)" unfolding ids using k by simp
    also have "[1..?n] ! k = 1 + int k" using k by (intro nth_upto) simp
    finally show "trx_id_of (txs ! k) = ''TRX'' @ format_0d 8 (int k + 1)"
      by (simp add: generate_transaction_id_def add.commute)
  qed
  have d: "distinct (map trx_id_of txs)" unfolding ids by (rule distinct_transaction_ids)
  have w: "\<forall>i. 1 \<le> i \<and> i < 10 ^ 8 \<longrightarrow>
              length (format_0d 8 i) = 8 \<and> is_digits (format_0d 8 i) \<and>
              int (digits_value (format_0d 8 i)) = i"
    by (intro allI impI field_digits) simp_all
  show ?thesis
    using create_postgres_transactions_result [OF t, of w] len nth d p w by blast
qed

theorem generated_transactions_witness:
  "0 < NUM_TRANSACTIONS script_config \<and>
   (\<exists>txs. fst (create_postgres_transactions script_config None
                 \<lparr>table = Map.empty, files = Map.empty\<rparr> \<lparr>raw = (\<lambda>i. i), pos = 0\<rparr>) = Inr txs \<and>
      length txs = 100 \<and>
      trx_id_of (txs ! 0) = ''TRX00000001'' \<and>
      trx_id_of (txs ! 99) = ''TRX00000100'' \<and>
      distinct (map trx_id_of txs) \<and>
      (\<forall>t \<in> set txs. 10 \<le> amount_of t \<and> amount_of t \<le> 10000 \<and>
                       round2 (amount_of t) = amount_of t))"
proof -
  have h: "0 < NUM_TRANSACTIONS script_config" by (simp add: script_config_def)
  have n: "nat (NUM_TRANSACTIONS script_config) = 100" by (simp add: script_config_def)
  have f: "''TRX'' @ format_0d 8 (int 0 + 1) = ''TRX00000001''"
    "''TRX'' @ format_0d 8 (int 99 + 1) = ''TRX00000100''"
    by (simp_all add: text_eval)
  obtain txs where t:
    "fst (create_postgres_transactions script_config None
            \<lparr>table = Map.empty, files = Map.empty\<rparr> \<lparr>raw = (\<lambda>i. i), pos = 0\<rparr>) = Inr txs"
    "length txs = 100"
    "\<forall>k < 100. trx_id_of (txs ! k) = ''TRX'' @ format_0d 8 (int k + 1)"
    "distinct (map trx_id_of txs)"
    "\<forall>t \<in> set txs. 10 \<le> amount_of t \<and> amount_of t \<le> 10000 \<and> round2 (amount_of t) = amount_of t"
    using generated_transactions [OF h, of "\<lparr>table = Map.empty, files = Map.empty\<rparr>"
        "\<lparr>raw = (\<lambda>i. i), pos = 0\<rparr>"]
    unfolding n by blast
  have "trx_id_of (txs ! 0) = ''TRX00000001''" using t(3) f(1) by force
  moreover have "trx_id_of (txs ! 99) = ''TRX00000100''" using t(3) f(2) by force
  ultimately show ?thesis using h t by blast
qed

section \<open>The rows of a bank file\<close>

text \<open>
  How the rows reach the file: for one bank and a non-zero \<^verbatim>\<open>NUM_BANK_FILES\<close>, the file
  holds the header, then the rows of the loop over \<^verbatim>\<open>bank_transactions\<close>, then the
  unmatched rows, and no exception is raised.
\<close>

lemma bank_file_layout:
  assumes "NUM_BANK_FILES cfg \<noteq> 0"
  shows "\<exists>fake_rows g2.
           unmatched_rows bank_name [0..num_unmatched (ROWS_PER_BANK cfg) - 1]
             (snd (snd (process_transactions (ROWS_PER_BANK cfg) (ERROR_RATE cfg)
                          (bank_transactions cfg available bank_index) 0 g)))
             = Inr (fake_rows, g2) \<and>
           write_banks cfg available [(bank_index, bank_name)] w g =
             (None,
              w\<lparr>files := (files w)(csv_path cfg bank_name \<mapsto>
                   header # fst (process_transactions (ROWS_PER_BANK cfg) (ERROR_RATE cfg)
                                   (bank_transactions cfg available bank_index) 0 g) @ fake_rows)\<rparr>,
              g2)"
proof -
  obtain rows n g1 where p:
    "process_transactions (ROWS_PER_BANK cfg) (ERROR_RATE cfg)
       (bank_transactions cfg available bank_index) 0 g = (rows, n, g1)"
    by (cases "process_transactions (ROWS_PER_BANK cfg) (ERROR_RATE cfg)
       (bank_transactions cfg available bank_index) 0 g") auto
  obtain fake_rows g2 where u:
    "unmatched_rows bank_name [0..num_unmatched (ROWS_PER_BANK cfg) - 1] g1 = Inr (fake_rows, g2)"
    using unmatched_rows_total by blast
  show ?thesis
    using assms by (simp add: p u Let_def)
qed

end
